theory Spec2Isabelle
  imports Main "HOL-Library.Word"
begin

section \<open>JavaScript values as the Jira client sees them\<close>

text \<open>
  The client in \<^verbatim>\<open>src/services/jiraService.ts\<close> works on values that come out of
  \<^verbatim>\<open>JSON.parse\<close> and are typed \<^verbatim>\<open>any\<close>. A JavaScript string is a sequence of
  UTF-16 code units: \<^verbatim>\<open>length\<close>, \<^verbatim>\<open>slice\<close>, \<^verbatim>\<open>trim\<close> and a regular expression
  without the \<^verbatim>\<open>u\<close> flag all count and match code units, so a string is a list of
  16-bit words here. The numbers of the model are the integers; a number with a
  fraction, \<^verbatim>\<open>NaN\<close> and the infinities are outside it.
\<close>

type_synonym jsstring = "16 word list"

definition ascii :: "string \<Rightarrow> jsstring" where
  "ascii s = map of_char s"

datatype json =
    JUndefined
  | JNull
  | JBool bool
  | JNum int
  | JStr jsstring
  | JArr "json list"
  | JObj "(jsstring \<times> json) list"

text \<open>
  \<open>JObj\<close> lists the own properties of a parsed object; a name listed twice has the
  value of its first entry. \<open>JUndefined\<close> is the result of reading a property that is
  not there.
\<close>

definition nullish :: "json \<Rightarrow> bool" where
  "nullish v \<longleftrightarrow> v = JUndefined \<or> v = JNull"

text \<open>ToBoolean: what \<^verbatim>\<open>!v\<close>, \<^verbatim>\<open>a && b\<close> and \<^verbatim>\<open>a || b\<close> test.\<close>

fun truthy :: "json \<Rightarrow> bool" where
  "truthy JUndefined = False"
| "truthy JNull = False"
| "truthy (JBool b) = b"
| "truthy (JNum n) = (n \<noteq> 0)"
| "truthy (JStr s) = (s \<noteq> [])"
| "truthy (JArr xs) = True"
| "truthy (JObj kvs) = True"

text \<open>
  \<^verbatim>\<open>v.k\<close> on a value that is neither \<^verbatim>\<open>null\<close> nor \<^verbatim>\<open>undefined\<close>, for the property
  names the client reads (\<^verbatim>\<open>key\<close>, \<^verbatim>\<open>fields\<close>, \<^verbatim>\<open>summary\<close>, \<^verbatim>\<open>description\<close>,
  \<^verbatim>\<open>issuetype\<close>, \<^verbatim>\<open>status\<close>, \<^verbatim>\<open>priority\<close>, \<^verbatim>\<open>name\<close>, \<^verbatim>\<open>type\<close>, \<^verbatim>\<open>text\<close>,
  \<^verbatim>\<open>content\<close>): none of them is a property of a boolean, a number, a string or an
  array, so only an object can hold one. On \<^verbatim>\<open>null\<close> and \<^verbatim>\<open>undefined\<close> the read
  throws a TypeError; \<open>get_strict\<close> has that branch, \<open>opt_get\<close> is \<^verbatim>\<open>v?.k\<close>.
\<close>

fun get_prop :: "json \<Rightarrow> jsstring \<Rightarrow> json" where
  "get_prop (JObj kvs) k = (case map_of kvs k of Some v \<Rightarrow> v | None \<Rightarrow> JUndefined)"
| "get_prop v k = JUndefined"

datatype error =
    TypeError
  | RangeError
  | JsonError
  | NetworkError
  | ApiError jsstring

definition get_strict :: "json \<Rightarrow> jsstring \<Rightarrow> error + json" where
  "get_strict v k = (if nullish v then Inl TypeError else Inr (get_prop v k))"

definition opt_get :: "json \<Rightarrow> jsstring \<Rightarrow> json" where
  "opt_get v k = (if nullish v then JUndefined else get_prop v k)"

text \<open>\<^verbatim>\<open>a ?? b\<close>\<close>

definition nullish_or :: "json \<Rightarrow> json \<Rightarrow> json" where
  "nullish_or a b = (if nullish a then b else a)"

subsection \<open>ToString\<close>

function digits :: "nat \<Rightarrow> jsstring" where
  "digits n = (if n < 10 then [0x30 + of_nat n] else digits (n div 10) @ [0x30 + of_nat (n mod 10)])"
  by pat_completeness auto
termination
  by (relation "measure id") auto

declare digits.simps [simp del]

text \<open>
  An integer in plain decimal: what Number::toString gives below 10^21, and so for
  the status of a response, an unsigned short.
\<close>

definition number_toString :: "int \<Rightarrow> jsstring" where
  "number_toString n = (if n < 0 then 0x2D # digits (nat (- n)) else digits (nat n))"

fun intercalate :: "jsstring \<Rightarrow> jsstring list \<Rightarrow> jsstring" where
  "intercalate sep [] = []"
| "intercalate sep [x] = x"
| "intercalate sep (x # y # ys) = x @ sep @ intercalate sep (y # ys)"

text \<open>
  What the program depends on in the engine that runs it, taken as parameters:
  how many nested calls of \<^verbatim>\<open>walk\<close> the call stack has room for where
  \<^verbatim>\<open>extractDescription\<close> starts the traversal, how many nested calls of
  \<^verbatim>\<open>Array.prototype.join\<close> it has room for at \<^verbatim>\<open>parts.join(' ')\<close> and at the
  template literal of \<^verbatim>\<open>transformIssue\<close>, and the string that Number::toString
  gives for an integer (plain decimal below 10^21, exponent form from there on).
  A call for which there is no room throws a RangeError.
\<close>

record engine =
  walk_frames :: nat
  join_frames :: nat
  template_frames :: nat
  number_text :: "int \<Rightarrow> jsstring"

text \<open>
  ToString, as a template literal and \<^verbatim>\<open>Array.prototype.join\<close> apply it. An object
  is converted by its \<^verbatim>\<open>toString\<close> method: a parsed object inherits the one that
  gives \<^verbatim>\<open>[object Object]\<close>, unless it has an own property of that name, which is
  never callable, and then the conversion throws a TypeError. An array is converted
  by \<^verbatim>\<open>join(',')\<close>. \<^verbatim>\<open>join\<close> writes \<^verbatim>\<open>null\<close> and \<^verbatim>\<open>undefined\<close> elements as the
  empty string and converts the others in order, so the first conversion that
  throws ends it.
\<close>

fun js_toString :: "(int \<Rightarrow> jsstring) \<Rightarrow> nat \<Rightarrow> json \<Rightarrow> error + jsstring"
  and join :: "(int \<Rightarrow> jsstring) \<Rightarrow> nat \<Rightarrow> jsstring \<Rightarrow> json list \<Rightarrow> error + jsstring"
  and element_strings :: "(int \<Rightarrow> jsstring) \<Rightarrow> nat \<Rightarrow> json list \<Rightarrow> error + jsstring list"
where
  "js_toString num k JUndefined = Inr (ascii ''undefined'')"
| "js_toString num k JNull = Inr (ascii ''null'')"
| "js_toString num k (JBool b) = Inr (if b then ascii ''true'' else ascii ''false'')"
| "js_toString num k (JNum n) = Inr (num n)"
| "js_toString num k (JStr s) = Inr s"
| "js_toString num k (JArr xs) = join num k (ascii '','') xs"
| "js_toString num k (JObj kvs) =
     (if map_of kvs (ascii ''toString'') \<noteq> None then Inl TypeError
      else Inr (ascii ''[object Object]''))"
| "join num 0 sep xs = Inl RangeError"
| "join num (Suc k) sep xs =
     (case element_strings num k xs of
        Inl e \<Rightarrow> Inl e
      | Inr strs \<Rightarrow> Inr (intercalate sep strs))"
| "element_strings num k [] = Inr []"
| "element_strings num k (x # xs) =
     (case (if nullish x then Inr [] else js_toString num k x) of
        Inl e \<Rightarrow> Inl e
      | Inr str \<Rightarrow>
          (case element_strings num k xs of
             Inl e \<Rightarrow> Inl e
           | Inr strs \<Rightarrow> Inr (str # strs)))"

subsection \<open>Whitespace: \<^verbatim>\<open>trim\<close> and \<^verbatim>\<open>replace(/\s+/g, ' ')\<close>\<close>

text \<open>
  The code units that \<^verbatim>\<open>\s\<close> matches and \<^verbatim>\<open>trim\<close> strips: the WhiteSpace and
  LineTerminator code points of ECMAScript.
\<close>

definition is_ws :: "16 word \<Rightarrow> bool" where
  "is_ws c \<longleftrightarrow>
     c = 0x09 \<or> c = 0x0A \<or> c = 0x0B \<or> c = 0x0C \<or> c = 0x0D \<or> c = 0x20 \<or> c = 0xA0 \<or>
     c = 0x1680 \<or> (0x2000 \<le> c \<and> c \<le> 0x200A) \<or> c = 0x2028 \<or> c = 0x2029 \<or>
     c = 0x202F \<or> c = 0x205F \<or> c = 0x3000 \<or> c = 0xFEFF"

definition trim :: "jsstring \<Rightarrow> jsstring" where
  "trim s = rev (dropWhile is_ws (rev (dropWhile is_ws s)))"

text \<open>
  \<^verbatim>\<open>s.replace(/\s+/g, ' ')\<close>: scanning from the left, each maximal run of whitespace
  is matched once and replaced by one space.
\<close>

function replace_ws_runs :: "jsstring \<Rightarrow> jsstring" where
  "replace_ws_runs [] = []"
| "replace_ws_runs (c # cs) =
     (if is_ws c then 0x20 # replace_ws_runs (dropWhile is_ws cs) else c # replace_ws_runs cs)"
  by pat_completeness auto
termination
  by (relation "measure length") (auto simp: length_dropWhile_le less_Suc_eq_le)

text \<open>
  \<^verbatim>\<open>s.replace(/\/+$/, '')\<close>: the leftmost position from which only slashes (at least
  one) follow up to the end of the string is matched, and the match is removed.
\<close>

fun strip_trailing_slashes :: "jsstring \<Rightarrow> jsstring" where
  "strip_trailing_slashes [] = []"
| "strip_trailing_slashes (c # cs) =
     (if list_all (\<lambda>x. x = 0x2F) (c # cs) then [] else c # strip_trailing_slashes cs)"

section \<open>The description extractor\<close>

definition no_description :: jsstring where
  "no_description = ascii ''No description''"

lemma size_map_of:
  "map_of kvs k = Some v \<Longrightarrow> size v < Suc (size_list (size_prod (\<lambda>_. 0) size) kvs)"
  by (induction kvs) (auto split: if_splits)

lemma size_get_prop:
  assumes "get_prop node k = JArr cs" and "c \<in> set cs"
  shows "size c < size node"
proof (cases node)
  case (JObj kvs)
  with assms(1) have "map_of kvs k = Some (JArr cs)"
    by (simp split: option.splits)
  from size_map_of [OF this] have "size (JArr cs) < size node"
    using JObj by simp
  moreover have "size c < size (JArr cs)"
    using assms(2) by (induction cs) auto
  ultimately show ?thesis by simp
qed (use assms in simp_all)

text \<open>
  The closure \<^verbatim>\<open>walk\<close> pushes onto the array \<^verbatim>\<open>parts\<close> of the enclosing call; here
  the array is passed in and returned. \<open>walk_each\<close> is \<^verbatim>\<open>content.forEach(walk)\<close>. The
  first argument is the number of nested calls of \<^verbatim>\<open>walk\<close> the stack still has room
  for, this one included.
\<close>

fun walk :: "nat \<Rightarrow> json \<Rightarrow> json list \<Rightarrow> error + json list"
  and walk_each :: "nat \<Rightarrow> json list \<Rightarrow> json list \<Rightarrow> error + json list"
where
  "walk 0 node parts = Inl RangeError"
| "walk (Suc k) node parts =
     (if \<not> truthy node then Inr parts
      else
        let parts1 =
              (if get_prop node (ascii ''type'') = JStr (ascii ''text'') \<and> truthy (get_prop node (ascii ''text''))
               then parts @ [get_prop node (ascii ''text'')] else parts)
        in (case get_prop node (ascii ''content'') of
              JArr cs \<Rightarrow> walk_each k cs parts1
            | _ \<Rightarrow> Inr parts1))"
| "walk_each k [] parts = Inr parts"
| "walk_each k (c # cs) parts =
     (case walk k c parts of
        Inl e \<Rightarrow> Inl e
      | Inr parts' \<Rightarrow> walk_each k cs parts')"

text \<open>
  The \<^verbatim>\<open>try\<close> block: \<open>Inr (Some text)\<close> when it returns \<open>text\<close>, \<open>Inr None\<close> when it
  is left without a \<^verbatim>\<open>return\<close> (\<^verbatim>\<open>desc.content\<close> is not an array), \<open>Inl e\<close> when it
  throws: a RangeError when the document is nested deeper than the stack has room
  for, and whatever \<^verbatim>\<open>parts.join(' ')\<close> throws. Reading \<^verbatim>\<open>desc.content\<close> and the
  properties of a node cannot throw, as \<^verbatim>\<open>desc\<close> and the node are truthy there.
\<close>

definition try_block :: "engine \<Rightarrow> json \<Rightarrow> error + jsstring option" where
  "try_block eng desc =
     (case get_prop desc (ascii ''content'') of
        JArr cs \<Rightarrow>
          (case walk_each (walk_frames eng) cs [] of
             Inl e \<Rightarrow> Inl e
           | Inr parts \<Rightarrow>
               (case join (number_text eng) (join_frames eng) (ascii '' '') parts of
                  Inl e \<Rightarrow> Inl e
                | Inr joined \<Rightarrow>
                    (let text = trim (replace_ws_runs joined)
                     in Inr (Some (if text \<noteq> [] then text else no_description)))))
      | _ \<Rightarrow> Inr None)"

text \<open>
  The \<^verbatim>\<open>catch\<close> ignores what was thrown, and the function then returns the sentinel,
  as it does when the \<^verbatim>\<open>try\<close> block is left without a \<^verbatim>\<open>return\<close>.
\<close>

definition extractDescription :: "engine \<Rightarrow> json \<Rightarrow> jsstring" where
  "extractDescription eng desc =
     (if \<not> truthy desc then no_description
      else case desc of
        JStr s \<Rightarrow> (let t = trim s in if t \<noteq> [] then t else no_description)
      | _ \<Rightarrow>
        (case try_block eng desc of
           Inr (Some text) \<Rightarrow> text
         | Inr None \<Rightarrow> no_description
         | Inl e \<Rightarrow> no_description))"

section \<open>The normalizer\<close>

text \<open>
  The interface \<^verbatim>\<open>JiraIssue\<close> declares every field a string, but \<^verbatim>\<open>issue\<close> is
  \<^verbatim>\<open>any\<close> and nothing converts what is read from it: at run time \<^verbatim>\<open>key\<close>,
  \<^verbatim>\<open>summary\<close>, \<^verbatim>\<open>issueType\<close>, \<^verbatim>\<open>status\<close> and \<^verbatim>\<open>priority\<close> hold whatever value
  the response had. \<^verbatim>\<open>description\<close> and \<^verbatim>\<open>url\<close> are built by string operations.
\<close>

record JiraIssue =
  key :: json
  summary :: json
  description :: jsstring
  issueType :: json
  status :: json
  priority :: json
  url :: jsstring

text \<open>
  The string literal appended on truncation, as the source file has it: the three
  code units U+00E2, U+20AC, U+00A6. They are the UTF-8 bytes of the ellipsis
  U+2026 read as Windows-1252; the literal is not an ellipsis.
\<close>

definition truncation_suffix :: jsstring where
  "truncation_suffix = [0xE2, 0x20AC, 0xA6]"

definition ellipsis :: jsstring where
  "ellipsis = [0x2026]"

definition maxLength :: nat where
  "maxLength = 100"

definition truncate_description :: "jsstring \<Rightarrow> jsstring" where
  "truncate_description descr =
     (if length descr > maxLength then take maxLength descr @ truncation_suffix
      else descr)"

text \<open>
  \<^verbatim>\<open>issue?.fields?.description\<close> and its siblings tolerate a \<^verbatim>\<open>null\<close> issue, but the
  object literal reads \<^verbatim>\<open>issue.key\<close> without the \<^verbatim>\<open>?.\<close>, which throws a TypeError
  on \<^verbatim>\<open>null\<close> and \<^verbatim>\<open>undefined\<close>. The template literal of \<^verbatim>\<open>url\<close> converts the key
  to a string, which throws when the conversion does.
\<close>

definition transformIssue :: "engine \<Rightarrow> jsstring \<Rightarrow> json \<Rightarrow> error + JiraIssue" where
  "transformIssue eng baseUrl issue =
     (let descr = extractDescription eng (opt_get (opt_get issue (ascii ''fields'')) (ascii ''description''));
          truncated = truncate_description descr
      in case get_strict issue (ascii ''key'') of
           Inl e \<Rightarrow> Inl e
         | Inr k \<Rightarrow>
             (case js_toString (number_text eng) (template_frames eng) k of
                Inl e \<Rightarrow> Inl e
              | Inr key_text \<Rightarrow>
                  Inr \<lparr> key = k,
                        summary = nullish_or (opt_get (opt_get issue (ascii ''fields'')) (ascii ''summary''))
                                    (JStr (ascii ''No Summary'')),
                        description = truncated,
                        issueType = nullish_or
                          (opt_get (opt_get (opt_get issue (ascii ''fields'')) (ascii ''issuetype'')) (ascii ''name''))
                          (JStr (ascii ''Unknown'')),
                        status = nullish_or
                          (opt_get (opt_get (opt_get issue (ascii ''fields'')) (ascii ''status'')) (ascii ''name''))
                          (JStr (ascii ''Unknown'')),
                        priority = nullish_or
                          (opt_get (opt_get (opt_get issue (ascii ''fields'')) (ascii ''priority'')) (ascii ''name''))
                          (JStr (ascii ''Unknown'')),
                        url = strip_trailing_slashes baseUrl @ ascii ''/browse/'' @ key_text \<rparr>))"

section \<open>The paginated fetch\<close>

text \<open>
  What \<^verbatim>\<open>await res.json()\<close> is cast to: \<^verbatim>\<open>issues\<close>, \<^verbatim>\<open>startAt\<close>, \<^verbatim>\<open>maxResults\<close>
  and \<^verbatim>\<open>total\<close>. Each may be missing from the body; \<open>None\<close> is the missing (or
  \<^verbatim>\<open>null\<close>) field. The loop reads the three numbers through \<^verbatim>\<open>??\<close>; iterating a
  missing \<^verbatim>\<open>issues\<close> throws a TypeError.
\<close>

record page =
  data_issues :: "json list option"
  data_startAt :: "int option"
  data_maxResults :: "int option"
  data_total :: "int option"

text \<open>
  The \<^verbatim>\<open>Response\<close> of \<^verbatim>\<open>fetch\<close>: \<^verbatim>\<open>ok\<close>, \<^verbatim>\<open>status\<close>, \<^verbatim>\<open>statusText\<close>, the body as
  \<^verbatim>\<open>text()\<close> gives it and as \<^verbatim>\<open>json()\<close> gives it (\<open>None\<close> when the body does not
  parse, and \<^verbatim>\<open>json()\<close> rejects).
\<close>

record response =
  res_ok :: bool
  res_status :: int
  res_statusText :: jsstring
  res_text :: jsstring
  res_json :: "page option"

text \<open>What one \<^verbatim>\<open>await fetch(url, ...)\<close> yields: a rejection or a response.\<close>

datatype reply = Rejected | Response response

text \<open>The two query parameters that change from page to page.\<close>

record request =
  req_startAt :: int
  req_maxResults :: int

text \<open>
  The server is the sequence of its replies, in the order of the requests. A fetch
  ends by returning the accumulated records or by throwing; \<open>Awaiting\<close> is the
  state of a fetch whose last request has no reply in the sequence yet.
\<close>

datatype outcome = Returned "JiraIssue list" | Threw error | Awaiting

definition error_hint :: "int \<Rightarrow> jsstring" where
  "error_hint st =
     (if st = 401 \<or> st = 403
      then ascii '' Check your site URL (e.g. https://yourcompany.atlassian.net), email, and API token permissions.''
      else if st = 400 then ascii '' The JQL or fields may be invalid for this site.''
      else [])"

definition error_message :: "response \<Rightarrow> jsstring" where
  "error_message res =
     ascii ''Jira API error: '' @ number_toString (res_status res) @ ascii '' '' @ res_statusText res
       @ ascii '' - '' @ res_text res @ error_hint (res_status res)"

text \<open>The inner \<^verbatim>\<open>for ... of\<close> loop with its \<^verbatim>\<open>break\<close>.\<close>

fun push_issues :: "engine \<Rightarrow> jsstring \<Rightarrow> int \<Rightarrow> JiraIssue list \<Rightarrow> json list \<Rightarrow> error + JiraIssue list" where
  "push_issues eng baseUrl maxToReturn accumulated [] = Inr accumulated"
| "push_issues eng baseUrl maxToReturn accumulated (issue # rest) =
     (case transformIssue eng baseUrl issue of
        Inl e \<Rightarrow> Inl e
      | Inr r \<Rightarrow>
          (let accumulated' = accumulated @ [r]
           in if int (length accumulated') \<ge> maxToReturn then Inr accumulated'
              else push_issues eng baseUrl maxToReturn accumulated' rest))"

text \<open>
  The \<^verbatim>\<open>while\<close> loop, one equation per reply consumed. It returns the requests
  issued, in order, with the outcome.
\<close>

fun fetch_loop ::
  "engine \<Rightarrow> jsstring \<Rightarrow> int \<Rightarrow> int \<Rightarrow> JiraIssue list \<Rightarrow> int \<Rightarrow> reply list \<Rightarrow> request list \<times> outcome" where
  "fetch_loop eng baseUrl maxToReturn pageSize accumulated startAt replies =
     (if int (length accumulated) < maxToReturn then
        (let req = \<lparr> req_startAt = startAt,
                     req_maxResults = min pageSize (maxToReturn - int (length accumulated)) \<rparr>
         in case replies of
              [] \<Rightarrow> ([req], Awaiting)
            | Rejected # rest \<Rightarrow> ([req], Threw NetworkError)
            | Response res # rest \<Rightarrow>
                if \<not> res_ok res then ([req], Threw (ApiError (error_message res)))
                else
                  (case res_json res of
                     None \<Rightarrow> ([req], Threw JsonError)
                   | Some data \<Rightarrow>
                       (case data_issues data of
                          None \<Rightarrow> ([req], Threw TypeError)
                        | Some issues \<Rightarrow>
                            (case push_issues eng baseUrl maxToReturn accumulated issues of
                               Inl e \<Rightarrow> ([req], Threw e)
                             | Inr accumulated' \<Rightarrow>
                                 (let startAt' = (case data_startAt data of Some s \<Rightarrow> s | None \<Rightarrow> startAt)
                                                  + (case data_maxResults data of Some m \<Rightarrow> m | None \<Rightarrow> pageSize);
                                      total = (case data_total data of Some t \<Rightarrow> t
                                               | None \<Rightarrow> int (length accumulated'))
                                  in if startAt' \<ge> total then ([req], Returned accumulated')
                                     else
                                       (case fetch_loop eng baseUrl maxToReturn pageSize accumulated' startAt' rest of
                                          (reqs, out) \<Rightarrow> (req # reqs, out)))))))
      else ([], Returned accumulated))"

declare fetch_loop.simps [simp del]

definition getCurrentUserIssues :: "engine \<Rightarrow> jsstring \<Rightarrow> int \<Rightarrow> reply list \<Rightarrow> request list \<times> outcome" where
  "getCurrentUserIssues eng baseUrl maxToReturn replies =
     (let pageSize = min 50 maxToReturn
      in fetch_loop eng baseUrl maxToReturn pageSize [] 0 replies)"

section \<open>The specification's wording, as definitions\<close>

subsection \<open>Text extraction\<close>

text \<open>
  The specification's extractor: the sentinel for an absent or empty field, the
  trimmed string for a plain string, and for anything else the literal text
  payloads of all text-tagged nodes below the field, in depth-first pre-order,
  joined with one space, whitespace runs collapsed and the ends trimmed. A child
  sequence that is not an array is no children. The literal text payload of a
  text-tagged node is its \<^verbatim>\<open>text\<close> when that is a string.
\<close>

definition children :: "json \<Rightarrow> json list" where
  "children node = (case get_prop node (ascii ''content'') of JArr cs \<Rightarrow> cs | _ \<Rightarrow> [])"

definition text_payload :: "json \<Rightarrow> jsstring list" where
  "text_payload node =
     (if get_prop node (ascii ''type'') = JStr (ascii ''text'')
      then (case get_prop node (ascii ''text'') of JStr s \<Rightarrow> [s] | _ \<Rightarrow> [])
      else [])"

lemma size_children: "c \<in> set (children node) \<Longrightarrow> size c < size node"
  by (auto simp: children_def split: json.splits dest: size_get_prop [OF sym])

function spec_texts :: "json \<Rightarrow> jsstring list" where
  "spec_texts node = text_payload node @ concat (map spec_texts (children node))"
  by pat_completeness auto
termination
  by (relation "measure size") (auto dest: size_children)

declare spec_texts.simps [simp del]

definition spec_extractText :: "json \<Rightarrow> jsstring" where
  "spec_extractText field =
     (if field = JUndefined \<or> field = JNull \<or> field = JStr [] then no_description
      else case field of
        JStr s \<Rightarrow> (if trim s = [] then no_description else trim s)
      | _ \<Rightarrow>
        (let joined = intercalate (ascii '' '') (concat (map spec_texts (children field)));
             flat = trim (replace_ws_runs joined)
         in if flat = [] then no_description else flat))"

text \<open>
  The same extractor with a traversal that can fail. The payload of a text-tagged
  node is its \<^verbatim>\<open>text\<close>: a string, or any other truthy value, which is converted
  to a string when the payloads are joined. The traversal fails when the nodes
  below the field are nested deeper than the engine has stack for, or when a
  payload cannot be converted; a failed traversal gives the sentinel.
  \<open>fits k node\<close> says that \<open>k\<close> nested visits are enough for the node and the nodes
  below it.
\<close>

definition node_payload :: "json \<Rightarrow> json list" where
  "node_payload node =
     (if get_prop node (ascii ''type'') = JStr (ascii ''text'')
      then (case get_prop node (ascii ''text'') of
              JStr s \<Rightarrow> [JStr s]
            | v \<Rightarrow> if truthy v then [v] else [])
      else [])"

function spec_payloads :: "json \<Rightarrow> json list" where
  "spec_payloads node = node_payload node @ concat (map spec_payloads (children node))"
  by pat_completeness auto
termination
  by (relation "measure size") (auto dest: size_children)

declare spec_payloads.simps [simp del]

fun fits :: "nat \<Rightarrow> json \<Rightarrow> bool" where
  "fits 0 node \<longleftrightarrow> False"
| "fits (Suc k) node \<longleftrightarrow> list_all (fits k) (children node)"

definition spec_extractText_failsafe :: "engine \<Rightarrow> json \<Rightarrow> jsstring" where
  "spec_extractText_failsafe eng field =
     (if field = JUndefined \<or> field = JNull \<or> field = JStr [] then no_description
      else case field of
        JStr s \<Rightarrow> (if trim s = [] then no_description else trim s)
      | _ \<Rightarrow>
        if \<not> list_all (fits (walk_frames eng)) (children field) then no_description
        else
          (case join (number_text eng) (join_frames eng) (ascii '' '')
                  (concat (map spec_payloads (children field))) of
             Inl e \<Rightarrow> no_description
           | Inr joined \<Rightarrow>
               (let flat = trim (replace_ws_runs joined)
                in if flat = [] then no_description else flat)))"

text \<open>
  A document as the specification's data model has it: every text-tagged node
  below carries a string as its \<^verbatim>\<open>text\<close>, or none (a falsy value).
\<close>

definition plain_payload :: "json \<Rightarrow> bool" where
  "plain_payload node \<longleftrightarrow>
     (get_prop node (ascii ''type'') = JStr (ascii ''text'') \<longrightarrow>
        (case get_prop node (ascii ''text'') of JStr s \<Rightarrow> True | v \<Rightarrow> \<not> truthy v))"

function plain_text_nodes :: "json \<Rightarrow> bool" where
  "plain_text_nodes node \<longleftrightarrow> plain_payload node \<and> list_all plain_text_nodes (children node)"
  by pat_completeness auto
termination
  by (relation "measure size") (auto dest: size_children)

declare plain_text_nodes.simps [simp del]

subsection \<open>Pagination\<close>

text \<open>
  The specification's fetch for a positive \<open>maxCount\<close>: each request asks for the
  smaller of 50 and the count still needed; a successful page appends the
  normalized issues until the accumulator reaches \<open>maxCount\<close>; the cursor moves to
  the reported \<^verbatim>\<open>startAt\<close> (or the local one) plus the reported \<^verbatim>\<open>maxResults\<close> (or a
  fallback); a further page is requested exactly when the accumulator is below
  \<open>maxCount\<close> and the cursor is below the reported \<^verbatim>\<open>total\<close> (or the accumulated
  count). The fallback is a parameter, given the count requested on this page.
\<close>

fun normalize_all :: "engine \<Rightarrow> jsstring \<Rightarrow> json list \<Rightarrow> error + JiraIssue list" where
  "normalize_all eng baseUrl [] = Inr []"
| "normalize_all eng baseUrl (issue # rest) =
     (case transformIssue eng baseUrl issue of
        Inl e \<Rightarrow> Inl e
      | Inr r \<Rightarrow> (case normalize_all eng baseUrl rest of Inl e \<Rightarrow> Inl e | Inr rs \<Rightarrow> Inr (r # rs)))"

fun spec_pages ::
  "(int \<Rightarrow> int) \<Rightarrow> engine \<Rightarrow> jsstring \<Rightarrow> int \<Rightarrow> JiraIssue list \<Rightarrow> int \<Rightarrow> reply list \<Rightarrow> request list \<times> outcome" where
  "spec_pages fallback eng baseUrl maxCount acc cursor [] =
     ([\<lparr> req_startAt = cursor, req_maxResults = min 50 (maxCount - int (length acc)) \<rparr>], Awaiting)"
| "spec_pages fallback eng baseUrl maxCount acc cursor (r # rs) =
     (let requested = min 50 (maxCount - int (length acc));
          req = \<lparr> req_startAt = cursor, req_maxResults = requested \<rparr>
      in case r of
           Rejected \<Rightarrow> ([req], Threw NetworkError)
         | Response res \<Rightarrow>
             if \<not> res_ok res then ([req], Threw (ApiError (error_message res)))
             else
               (case res_json res of
                  None \<Rightarrow> ([req], Threw JsonError)
                | Some data \<Rightarrow>
                    (case data_issues data of
                       None \<Rightarrow> ([req], Threw TypeError)
                     | Some issues \<Rightarrow>
                         (case normalize_all eng baseUrl (take (nat (maxCount - int (length acc))) issues) of
                            Inl e \<Rightarrow> ([req], Threw e)
                          | Inr new \<Rightarrow>
                              (let acc' = acc @ new;
                                   cursor' = (case data_startAt data of Some s \<Rightarrow> s | None \<Rightarrow> cursor)
                                             + (case data_maxResults data of Some m \<Rightarrow> m
                                                | None \<Rightarrow> fallback requested);
                                   further = (int (length acc') < maxCount
                                              \<and> cursor' < (case data_total data of Some t \<Rightarrow> t
                                                            | None \<Rightarrow> int (length acc')))
                               in if further
                                  then (case spec_pages fallback eng baseUrl maxCount acc' cursor' rs of
                                          (reqs, out) \<Rightarrow> (req # reqs, out))
                                  else ([req], Returned acc'))))))"

text \<open>The fallback as the specification states it: the page size requested.\<close>

definition spec_fetch_requested_fallback :: "engine \<Rightarrow> jsstring \<Rightarrow> int \<Rightarrow> reply list \<Rightarrow> request list \<times> outcome" where
  "spec_fetch_requested_fallback eng baseUrl maxCount replies =
     spec_pages (\<lambda>requested. requested) eng baseUrl maxCount [] 0 replies"

text \<open>The fallback fixed for the whole fetch: the smaller of 50 and \<open>maxCount\<close>.\<close>

definition spec_fetch_fixed_fallback :: "engine \<Rightarrow> jsstring \<Rightarrow> int \<Rightarrow> reply list \<Rightarrow> request list \<times> outcome" where
  "spec_fetch_fixed_fallback eng baseUrl maxCount replies =
     spec_pages (\<lambda>requested. min 50 maxCount) eng baseUrl maxCount [] 0 replies"

section \<open>Example values\<close>

text \<open>An engine with room for 32 nested calls that prints integers in decimal.\<close>

definition example_engine :: engine where
  "example_engine =
     \<lparr> walk_frames = 32, join_frames = 32, template_frames = 32, number_text = number_toString \<rparr>"

definition site :: jsstring where
  "site = ascii ''https://x.atlassian.net/''"

text \<open>An issue with a key and nothing else, and the record it is normalized to at \<open>site\<close>.\<close>

definition bare_issue :: "string \<Rightarrow> json" where
  "bare_issue k = JObj [(ascii ''key'', JStr (ascii k))]"

definition bare_record :: "string \<Rightarrow> JiraIssue" where
  "bare_record k =
     \<lparr> key = JStr (ascii k), summary = JStr (ascii ''No Summary''),
       description = ascii ''No description'', issueType = JStr (ascii ''Unknown''),
       status = JStr (ascii ''Unknown''), priority = JStr (ascii ''Unknown''),
       url = ascii ''https://x.atlassian.net/browse/'' @ ascii k \<rparr>"

definition page_data :: "json list \<Rightarrow> int option \<Rightarrow> int option \<Rightarrow> int option \<Rightarrow> page" where
  "page_data issues s m t =
     \<lparr> data_issues = Some issues, data_startAt = s, data_maxResults = m, data_total = t \<rparr>"

definition ok_response :: "page \<Rightarrow> response" where
  "ok_response data =
     \<lparr> res_ok = True, res_status = 200, res_statusText = ascii ''OK'', res_text = [],
       res_json = Some data \<rparr>"

definition ok_page :: "json list \<Rightarrow> int option \<Rightarrow> int option \<Rightarrow> int option \<Rightarrow> reply" where
  "ok_page issues s m t = Response (ok_response (page_data issues s m t))"

definition failed :: "int \<Rightarrow> string \<Rightarrow> string \<Rightarrow> response" where
  "failed st reason body =
     \<lparr> res_ok = False, res_status = st, res_statusText = ascii reason, res_text = ascii body,
       res_json = None \<rparr>"

definition issue_with_summary :: "string \<Rightarrow> json \<Rightarrow> json" where
  "issue_with_summary k v =
     JObj [(ascii ''key'', JStr (ascii k)), (ascii ''fields'', JObj [(ascii ''summary'', v)])]"

definition issue_with_description :: "string \<Rightarrow> json \<Rightarrow> json" where
  "issue_with_description k v =
     JObj [(ascii ''key'', JStr (ascii k)), (ascii ''fields'', JObj [(ascii ''description'', v)])]"

definition text_node :: "string \<Rightarrow> json" where
  "text_node s = JObj [(ascii ''type'', JStr (ascii ''text'')), (ascii ''text'', JStr (ascii s))]"

definition with_content :: "json list \<Rightarrow> json" where
  "with_content cs = JObj [(ascii ''content'', JArr cs)]"

text \<open>A text-tagged node with the payload \<open>v\<close>.\<close>

definition tagged_node :: "json \<Rightarrow> json" where
  "tagged_node v = JObj [(ascii ''type'', JStr (ascii ''text'')), (ascii ''text'', v)]"


section \<open>Auxiliary notions for the proofs\<close>

text \<open>
  \<open>trim\<close> strips on the left and then on the right; \<open>flatten\<close> is the extractor's
  whitespace normalization; \<open>glue\<close> joins two flattened strings with one space
  unless one of them is empty; \<open>pushed\<close> are the payloads that \<^verbatim>\<open>walk\<close> pushes, all
  but the empty strings; \<open>finish\<close> is what the extractor makes of the outcome of the
  join.
\<close>

abbreviation ltrim :: "jsstring \<Rightarrow> jsstring" where
  "ltrim \<equiv> dropWhile is_ws"

definition rtrim :: "jsstring \<Rightarrow> jsstring" where
  "rtrim s = rev (dropWhile is_ws (rev s))"

definition glue :: "jsstring \<Rightarrow> jsstring \<Rightarrow> jsstring" where
  "glue u v = (if u = [] then v else if v = [] then u else u @ 0x20 # v)"

definition flatten :: "jsstring \<Rightarrow> jsstring" where
  "flatten s = trim (replace_ws_runs s)"

definition pushed :: "json list \<Rightarrow> json list" where
  "pushed vs = filter (\<lambda>v. v \<noteq> JStr []) vs"

definition finish :: "error + jsstring \<Rightarrow> jsstring" where
  "finish r = (case r of
                 Inl e \<Rightarrow> no_description
               | Inr joined \<Rightarrow> (if flatten joined = [] then no_description else flatten joined))"

section \<open>Properties of the extractor\<close>

subsection \<open>Trimming and whitespace runs\<close>

lemma trim_eq: "trim s = rtrim (ltrim s)"
  by (simp add: trim_def rtrim_def)

lemma is_ws_space [simp]: "is_ws 0x20"
  by (simp add: is_ws_def)

lemma rtrim_Nil [simp]: "rtrim [] = []"
  by (simp add: rtrim_def)

lemma rtrim_append:
  "rtrim (xs @ ys) = (if \<forall>y\<in>set ys. is_ws y then rtrim xs else xs @ rtrim ys)"
  by (simp add: rtrim_def dropWhile_append)

lemma rtrim_eq_Nil [simp]: "rtrim s = [] \<longleftrightarrow> (\<forall>x\<in>set s. is_ws x)"
  by (simp add: rtrim_def)

lemma rtrim_Cons:
  "rtrim (c # cs) = (if \<forall>y\<in>set cs. is_ws y then (if is_ws c then [] else [c]) else c # rtrim cs)"
  using rtrim_append [of "[c]" cs] by (simp add: rtrim_def)

lemma rtrim_idem [simp]: "rtrim (rtrim s) = rtrim s"
  by (simp add: rtrim_def)

lemma all_ws_ltrim: "(\<forall>x\<in>set (ltrim s). is_ws x) \<longleftrightarrow> (\<forall>x\<in>set s. is_ws x)"
  by (induction s) auto

lemma rtrim_all_ws: "\<forall>x\<in>set s. is_ws x \<Longrightarrow> rtrim s = []"
  by simp

lemma ltrim_rtrim: "ltrim (rtrim s) = rtrim (ltrim s)"
proof (induction s)
  case Nil
  show ?case by simp
next
  case (Cons c cs)
  show ?case
  proof (cases "is_ws c")
    case True
    with Cons show ?thesis by (auto simp: rtrim_Cons all_ws_ltrim rtrim_all_ws)
  next
    case False
    then show ?thesis by (auto simp: rtrim_Cons)
  qed
qed

lemma replace_ws_runs_ltrim: "ltrim (replace_ws_runs s) = replace_ws_runs (ltrim s)"
proof (cases s)
  case Nil
  then show ?thesis by simp
next
  case (Cons c cs)
  have start: "ltrim (replace_ws_runs t) = replace_ws_runs t" if "t = [] \<or> \<not> is_ws (hd t)" for t
    using that by (cases t) auto
  have "ltrim cs = [] \<or> \<not> is_ws (hd (ltrim cs))"
    by (metis dropWhile_eq_Nil_conv hd_dropWhile)
  from start [OF this] Cons show ?thesis by simp
qed

lemma filter_replace_ws_runs:
  "filter (\<lambda>x. \<not> is_ws x) (replace_ws_runs s) = filter (\<lambda>x. \<not> is_ws x) s"
proof (induction s rule: replace_ws_runs.induct)
  case 1
  show ?case by simp
next
  case (2 c cs)
  have "filter (\<lambda>x. \<not> is_ws x) (ltrim cs) = filter (\<lambda>x. \<not> is_ws x) cs"
    by (induction cs) auto
  with 2 show ?case by simp
qed

lemma all_ws_replace_ws_runs:
  "(\<forall>x\<in>set (replace_ws_runs s). is_ws x) \<longleftrightarrow> (\<forall>x\<in>set s. is_ws x)"
proof -
  have "(\<forall>x\<in>set t. is_ws x) \<longleftrightarrow> filter (\<lambda>x. \<not> is_ws x) t = []" for t
    by (simp add: filter_empty_conv)
  then show ?thesis by (simp add: filter_replace_ws_runs)
qed

lemma replace_ws_runs_rtrim: "rtrim (replace_ws_runs s) = replace_ws_runs (rtrim s)"
proof (induction s rule: replace_ws_runs.induct)
  case 1
  show ?case by simp
next
  case (2 c cs)
  show ?case
  proof (cases "is_ws c")
    case True
    with 2 show ?thesis
      by (simp add: rtrim_Cons all_ws_replace_ws_runs all_ws_ltrim ltrim_rtrim)
  next
    case False
    with 2 show ?thesis
      by (simp add: rtrim_Cons all_ws_replace_ws_runs)
  qed
qed

lemma replace_ws_runs_sep:
  "is_ws d \<Longrightarrow> replace_ws_runs (a @ d # b) = replace_ws_runs (rtrim a) @ 0x20 # replace_ws_runs (ltrim b)"
proof (induction a rule: replace_ws_runs.induct)
  case 1
  then show ?case by simp
next
  case (2 c cs)
  show ?case
  proof (cases "is_ws c")
    case True
    with 2 show ?thesis
      by (simp add: rtrim_Cons dropWhile_append ltrim_rtrim)
  next
    case False
    with 2 show ?thesis
      by (simp add: rtrim_Cons rtrim_all_ws)
  qed
qed

lemma flatten_Nil [simp]: "flatten [] = []"
  by (simp add: flatten_def trim_def)

lemma rtrim_append_text:
  "\<not> (\<forall>y\<in>set ys. is_ws y) \<Longrightarrow> rtrim (xs @ ys) = xs @ rtrim ys"
  by (simp only: rtrim_append if_False)

lemma rtrim_Cons_text:
  "\<not> (\<forall>y\<in>set cs. is_ws y) \<Longrightarrow> rtrim (c # cs) = c # rtrim cs"
  using rtrim_append_text [of cs "[c]"] by simp

lemma flatten_sep:
  assumes "is_ws d"
  shows "flatten (a @ d # b) = glue (flatten a) (flatten b)"
proof -
  define u where "u = replace_ws_runs (rtrim a)"
  define v where "v = replace_ws_runs (ltrim b)"
  have u: "rtrim u = u"
    by (simp add: u_def replace_ws_runs_rtrim)
  have v: "ltrim v = v"
    by (simp add: v_def flip: replace_ws_runs_ltrim)
  have fa: "flatten a = ltrim u"
    by (simp add: flatten_def trim_eq u_def replace_ws_runs_ltrim replace_ws_runs_rtrim ltrim_rtrim)
  have fb: "flatten b = rtrim v"
    by (simp add: flatten_def trim_eq v_def replace_ws_runs_ltrim)
  have whole: "flatten (a @ d # b) = rtrim (ltrim (u @ 0x20 # v))"
    by (simp add: flatten_def trim_eq u_def v_def replace_ws_runs_sep [OF assms])
  show ?thesis
  proof (cases "\<forall>x\<in>set u. is_ws x")
    case True
    with u have "u = []" by (metis rtrim_all_ws)
    then show ?thesis by (simp add: whole fa fb glue_def v)
  next
    case u_text: False
    then obtain x where "x \<in> set u" and "\<not> is_ws x" by blast
    then have whole': "flatten (a @ d # b) = rtrim (ltrim u @ 0x20 # v)"
      by (simp add: whole)
    from u_text have lu: "ltrim u \<noteq> []" by simp
    have rl: "rtrim (ltrim u) = ltrim u"
      by (simp add: u flip: ltrim_rtrim)
    show ?thesis
    proof (cases "\<forall>x\<in>set v. is_ws x")
      case True
      with v have "v = []" by (metis dropWhile_eq_Nil_conv)
      with lu show ?thesis
        using rtrim_append [of "ltrim u" "[0x20]"] by (simp add: whole' fa fb glue_def rl)
    next
      case False
      then have "\<not> (\<forall>x\<in>set (0x20 # v). is_ws x)" by simp
      from rtrim_append_text [OF this] rtrim_Cons_text [OF False]
      have "rtrim (ltrim u @ 0x20 # v) = ltrim u @ 0x20 # rtrim v"
        by simp
      moreover from False have "rtrim v \<noteq> []" by simp
      ultimately show ?thesis
        using lu by (simp add: whole' fa fb glue_def)
    qed
  qed
qed

lemma space_literal: "ascii '' '' = [0x20]"
  by (simp add: ascii_def)

lemma flatten_intercalate_Cons:
  "flatten (intercalate (ascii '' '') (x # xs)) = glue (flatten x) (flatten (intercalate (ascii '' '') xs))"
proof (cases xs)
  case Nil
  then show ?thesis by (simp add: glue_def)
next
  case (Cons y ys)
  then show ?thesis
    by (simp add: space_literal flatten_sep)
qed

lemma flatten_intercalate_filter:
  "flatten (intercalate (ascii '' '') (filter (\<lambda>x. x \<noteq> []) xs)) = flatten (intercalate (ascii '' '') xs)"
proof (induction xs)
  case Nil
  show ?case by simp
next
  case (Cons x xs)
  show ?case
  proof (cases "x = []")
    case True
    with Cons show ?thesis
      by (simp add: flatten_intercalate_Cons [of "[]"] glue_def)
  next
    case False
    with Cons show ?thesis
      by (simp add: flatten_intercalate_Cons)
  qed
qed

subsection \<open>The traversal\<close>

lemma get_prop_falsy: "\<not> truthy node \<Longrightarrow> get_prop node k = JUndefined"
  by (cases node) auto

lemma children_falsy: "\<not> truthy node \<Longrightarrow> children node = []"
  by (simp add: children_def get_prop_falsy)

lemma spec_payloads_falsy: "\<not> truthy node \<Longrightarrow> spec_payloads node = []"
  by (subst spec_payloads.simps) (simp add: node_payload_def children_falsy get_prop_falsy)

lemma pushed_append [simp]: "pushed (xs @ ys) = pushed xs @ pushed ys"
  by (simp add: pushed_def)

lemma pushed_Nil [simp]: "pushed [] = []"
  by (simp add: pushed_def)

lemma payload_pushed:
  "(if get_prop node (ascii ''type'') = JStr (ascii ''text'') \<and> truthy (get_prop node (ascii ''text''))
    then parts @ [get_prop node (ascii ''text'')] else parts)
   = parts @ pushed (node_payload node)"
  by (cases "get_prop node (ascii ''text'')") (auto simp: node_payload_def pushed_def)

lemma walk_payloads:
  "walk k node parts =
     (if fits k node then Inr (parts @ pushed (spec_payloads node)) else Inl RangeError)"
  and walk_each_payloads:
  "walk_each k cs parts =
     (if list_all (fits k) cs then Inr (parts @ pushed (concat (map spec_payloads cs))) else Inl RangeError)"
proof (induction k node parts and k cs parts rule: walk_walk_each.induct)
  case (1 node parts)
  show ?case by simp
next
  case (2 k node parts)
  show ?case
  proof (cases "truthy node")
    case False
    then show ?thesis
      by (simp add: children_falsy spec_payloads_falsy)
  next
    case True
    define parts1 where "parts1 =
      (if get_prop node (ascii ''type'') = JStr (ascii ''text'') \<and> truthy (get_prop node (ascii ''text''))
       then parts @ [get_prop node (ascii ''text'')] else parts)"
    have p1: "parts1 = parts @ pushed (node_payload node)"
      unfolding parts1_def by (rule payload_pushed)
    show ?thesis
    proof (cases "\<exists>cs. get_prop node (ascii ''content'') = JArr cs")
      case False
      then have w: "walk (Suc k) node parts = Inr parts1" and ch: "children node = []"
        using True by (auto simp: parts1_def children_def split: json.splits)
      show ?thesis
        unfolding w p1
        by (subst spec_payloads.simps) (simp add: ch)
    next
      case has: True
      then obtain cs where cs: "get_prop node (ascii ''content'') = JArr cs" ..
      then have w: "walk (Suc k) node parts = walk_each k cs parts1" and ch: "children node = cs"
        using True by (auto simp: parts1_def children_def)
      from True have nn: "\<not> \<not> truthy node" by simp
      have ih: "walk_each k cs parts1 =
          (if list_all (fits k) cs then Inr (parts1 @ pushed (concat (map spec_payloads cs)))
           else Inl RangeError)"
        by (rule "2.IH" [OF nn parts1_def cs])
      note ih' = ih [unfolded p1]
      show ?thesis
        unfolding w p1
        by (subst spec_payloads.simps) (simp add: ih' ch)
    qed
  qed
next
  case (3 k parts)
  show ?case by simp
next
  case (4 k c cs parts)
  show ?case
  proof (cases "fits k c")
    case True
    with 4 show ?thesis by simp
  next
    case False
    with "4.IH"(1) show ?thesis by simp
  qed
qed

lemma element_strings_pushed:
  "case element_strings num k vs of
     Inl e \<Rightarrow> element_strings num k (pushed vs) = Inl e
   | Inr strs \<Rightarrow> (\<exists>strs'. element_strings num k (pushed vs) = Inr strs'
                     \<and> filter (\<lambda>x. x \<noteq> []) strs' = filter (\<lambda>x. x \<noteq> []) strs)"
proof (induction vs)
  case Nil
  show ?case by simp
next
  case (Cons v vs)
  show ?case
  proof (cases "v = JStr []")
    case True
    with Cons show ?thesis
      by (auto simp: pushed_def nullish_def split: sum.splits)
  next
    case False
    with Cons show ?thesis
      by (cases "if nullish v then Inr [] else js_toString num k v")
         (auto simp: pushed_def split: sum.splits)
  qed
qed

lemma finish_join_pushed:
  "finish (join num k (ascii '' '') (pushed vs)) = finish (join num k (ascii '' '') vs)"
proof (cases k)
  case 0
  then show ?thesis by simp
next
  case (Suc j)
  show ?thesis
  proof (cases "element_strings num j vs")
    case (Inl e)
    with element_strings_pushed [of num j vs] Suc show ?thesis by simp
  next
    case (Inr strs)
    with element_strings_pushed [of num j vs] obtain strs' where
      s': "element_strings num j (pushed vs) = Inr strs'"
      and same: "filter (\<lambda>x. x \<noteq> []) strs' = filter (\<lambda>x. x \<noteq> []) strs"
      by auto
    have "flatten (intercalate (ascii '' '') strs') = flatten (intercalate (ascii '' '') strs)"
      by (metis same flatten_intercalate_filter)
    with Inr s' Suc show ?thesis by (simp add: finish_def)
  qed
qed

lemma finish_join_Nil: "finish (join num k sep []) = no_description"
  by (cases k) (simp_all add: finish_def)

lemma try_block_finish:
  "(case try_block eng desc of Inr (Some text) \<Rightarrow> text | Inr None \<Rightarrow> no_description
    | Inl e \<Rightarrow> no_description)
   = (if \<not> list_all (fits (walk_frames eng)) (children desc) then no_description
      else finish (join (number_text eng) (join_frames eng) (ascii '' '')
                     (concat (map spec_payloads (children desc)))))"
proof (cases "\<exists>cs. get_prop desc (ascii ''content'') = JArr cs")
  case False
  then have "try_block eng desc = Inr None" and "children desc = []"
    by (auto simp: try_block_def children_def split: json.splits)
  then show ?thesis by (simp add: finish_join_Nil)
next
  case True
  then obtain cs where cs: "get_prop desc (ascii ''content'') = JArr cs" ..
  then have ch: "children desc = cs" by (simp add: children_def)
  show ?thesis
  proof (cases "list_all (fits (walk_frames eng)) cs")
    case False
    with cs ch show ?thesis
      by (simp add: try_block_def walk_each_payloads)
  next
    case True
    have "try_block eng desc =
            (case join (number_text eng) (join_frames eng) (ascii '' '')
                    (pushed (concat (map spec_payloads cs))) of
               Inl e \<Rightarrow> Inl e
             | Inr joined \<Rightarrow>
                 Inr (Some (if flatten joined \<noteq> [] then flatten joined else no_description)))"
      using cs True by (simp add: try_block_def walk_each_payloads flatten_def Let_def split: sum.splits)
    then have "(case try_block eng desc of Inr (Some text) \<Rightarrow> text | Inr None \<Rightarrow> no_description
                | Inl e \<Rightarrow> no_description)
          = finish (join (number_text eng) (join_frames eng) (ascii '' '')
                      (pushed (concat (map spec_payloads cs))))"
      by (simp add: finish_def split: sum.splits)
    with True ch show ?thesis by (simp add: finish_join_pushed)
  qed
qed

lemma node_payload_plain: "plain_payload node \<Longrightarrow> node_payload node = map JStr (text_payload node)"
  by (cases "get_prop node (ascii ''text'')")
     (auto simp: plain_payload_def node_payload_def text_payload_def)

lemma concat_map_JStr:
  "(\<And>c. c \<in> set cs \<Longrightarrow> f c = map JStr (g c))
     \<Longrightarrow> concat (map f cs) = map JStr (concat (map g cs))"
  by (induction cs) auto

lemma spec_payloads_plain:
  "plain_text_nodes node \<Longrightarrow> spec_payloads node = map JStr (spec_texts node)"
proof (induction node rule: spec_texts.induct)
  case (1 node)
  from "1.prems" have own: "plain_payload node"
    and below: "\<And>c. c \<in> set (children node) \<Longrightarrow> plain_text_nodes c"
    by (subst (asm) plain_text_nodes.simps, simp add: list_all_iff)+
  have "concat (map spec_payloads (children node)) = map JStr (concat (map spec_texts (children node)))"
    by (rule concat_map_JStr) (rule "1.IH", simp_all add: below)
  then show ?case
    by (subst spec_payloads.simps, subst spec_texts.simps)
       (simp add: node_payload_plain [OF own])
qed

lemma element_strings_strings: "element_strings num k (map JStr xs) = Inr xs"
  by (induction xs) (simp_all add: nullish_def)

lemma failsafe_plain:
  assumes "list_all plain_text_nodes (children field)"
    and "list_all (fits (walk_frames eng)) (children field)" and "0 < join_frames eng"
  shows "spec_extractText_failsafe eng field = spec_extractText field"
proof -
  have payloads: "concat (map spec_payloads (children field))
                         = map JStr (concat (map spec_texts (children field)))"
    by (rule concat_map_JStr) (use assms(1) in \<open>simp add: list_all_iff spec_payloads_plain\<close>)
  from assms(3) obtain k where k: "join_frames eng = Suc k" by (cases "join_frames eng") auto
  have "join (number_text eng) (join_frames eng) (ascii '' '') (concat (map spec_payloads (children field)))
          = Inr (intercalate (ascii '' '') (concat (map spec_texts (children field))))"
    by (simp add: payloads k element_strings_strings)
  with assms(2) show ?thesis
    by (cases field) (simp_all add: spec_extractText_failsafe_def spec_extractText_def Let_def)
qed

section \<open>Properties of the normalizer\<close>

subsection \<open>What the normalizer returns\<close>

lemma ascii_nonempty: "ascii (c # cs) \<noteq> []"
  by (simp add: ascii_def)

lemma no_description_nonempty: "no_description \<noteq> []"
  by (simp add: no_description_def ascii_def)

lemma extractDescription_nonempty: "extractDescription eng d \<noteq> []"
proof -
  have "t \<noteq> []" if "try_block eng d = Inr (Some t)" for t
    using that
    by (auto simp: try_block_def Let_def no_description_nonempty split: json.splits sum.splits if_splits)
  then show ?thesis
    by (cases d)
       (auto simp: extractDescription_def Let_def no_description_nonempty
             split: sum.splits option.splits)
qed

lemma truncate_description_nonempty: "d \<noteq> [] \<Longrightarrow> truncate_description d \<noteq> []"
  by (simp add: truncate_description_def truncation_suffix_def)

lemma strip_trailing_slashes_decomp:
  "\<exists>n. s = strip_trailing_slashes s @ replicate n 0x2F"
proof (induction s)
  case Nil
  show ?case by simp
next
  case (Cons c cs)
  show ?case
  proof (cases "list_all (\<lambda>x. x = 0x2F) (c # cs)")
    case True
    then have "c # cs = replicate (length (c # cs)) 0x2F"
      unfolding list_all_iff by (rule replicate_length_same [symmetric])
    with True show ?thesis by (metis append_Nil strip_trailing_slashes.simps(2))
  next
    case False
    with Cons show ?thesis by auto
  qed
qed

lemma strip_trailing_slashes_last:
  "strip_trailing_slashes s = [] \<or> last (strip_trailing_slashes s) \<noteq> 0x2F"
proof (induction s)
  case Nil
  show ?case by simp
next
  case (Cons c cs)
  show ?case
  proof (cases "list_all (\<lambda>x. x = 0x2F) (c # cs)")
    case True
    then show ?thesis by simp
  next
    case False
    show ?thesis
    proof (cases "strip_trailing_slashes cs = []")
      case True
      from strip_trailing_slashes_decomp [of cs] True obtain n where "cs = replicate n 0x2F" by auto
      with False have "c \<noteq> 0x2F" by (auto simp: list_all_iff)
      with False True show ?thesis by simp
    next
      case nonempty: False
      with Cons False show ?thesis by simp
    qed
  qed
qed

lemma transformIssue_returns:
  assumes "\<not> nullish issue"
    and "js_toString (number_text eng) (template_frames eng) (get_prop issue (ascii ''key'')) = Inr key_text"
  shows "transformIssue eng baseUrl issue =
     Inr \<lparr> key = get_prop issue (ascii ''key''),
           summary = nullish_or (opt_get (opt_get issue (ascii ''fields'')) (ascii ''summary''))
                       (JStr (ascii ''No Summary'')),
           description = truncate_description
             (extractDescription eng (opt_get (opt_get issue (ascii ''fields'')) (ascii ''description''))),
           issueType = nullish_or
             (opt_get (opt_get (opt_get issue (ascii ''fields'')) (ascii ''issuetype'')) (ascii ''name''))
             (JStr (ascii ''Unknown'')),
           status = nullish_or
             (opt_get (opt_get (opt_get issue (ascii ''fields'')) (ascii ''status'')) (ascii ''name''))
             (JStr (ascii ''Unknown'')),
           priority = nullish_or
             (opt_get (opt_get (opt_get issue (ascii ''fields'')) (ascii ''priority'')) (ascii ''name''))
             (JStr (ascii ''Unknown'')),
           url = strip_trailing_slashes baseUrl @ ascii ''/browse/'' @ key_text \<rparr>"
  using assms by (simp add: transformIssue_def get_strict_def Let_def)

lemma transformIssue_throws:
  "nullish issue \<Longrightarrow> transformIssue eng baseUrl issue = Inl TypeError"
  by (simp add: transformIssue_def get_strict_def Let_def)

lemma transformIssue_returned:
  assumes "transformIssue eng baseUrl issue = Inr r"
  obtains key_text where "\<not> nullish issue"
    and "js_toString (number_text eng) (template_frames eng) (get_prop issue (ascii ''key'')) = Inr key_text"
proof (cases "js_toString (number_text eng) (template_frames eng) (get_prop issue (ascii ''key''))")
  case (Inl e)
  with assms show ?thesis
    by (simp add: transformIssue_def get_strict_def Let_def split: if_splits)
next
  case (Inr key_text)
  moreover from assms have "\<not> nullish issue" by (auto simp: transformIssue_throws)
  ultimately show ?thesis by (rule that [rotated])
qed

lemma nullish_or_not_nullish: "\<not> nullish b \<Longrightarrow> \<not> nullish (nullish_or a b)"
  by (simp add: nullish_or_def)

lemma description_truncation:
  assumes "transformIssue eng baseUrl issue = Inr r"
    and "extracted = extractDescription eng (opt_get (opt_get issue (ascii ''fields'')) (ascii ''description''))"
  shows "(length extracted > 100 \<longrightarrow> description r = take 100 extracted @ truncation_suffix)
       \<and> (length extracted \<le> 100 \<longrightarrow> description r = extracted)"
proof -
  from assms(1) obtain key_text where "\<not> nullish issue"
    and "js_toString (number_text eng) (template_frames eng) (get_prop issue (ascii ''key'')) = Inr key_text"
    by (rule transformIssue_returned)
  from assms(1) [unfolded transformIssue_returns [OF this]] assms(2) show ?thesis
    by (auto simp: truncate_description_def maxLength_def)
qed

section \<open>Properties of the fetch\<close>

subsection \<open>The inner loop and one turn of the outer loop\<close>

lemma push_issues_take:
  "int (length acc) < m \<Longrightarrow>
   push_issues eng b m acc issues =
     (case normalize_all eng b (take (nat (m - int (length acc))) issues) of
        Inl e \<Rightarrow> Inl e | Inr new \<Rightarrow> Inr (acc @ new))"
proof (induction issues arbitrary: acc)
  case Nil
  then show ?case by simp
next
  case (Cons i issues)
  from Cons.prems obtain n where n: "nat (m - int (length acc)) = Suc n"
    by (cases "nat (m - int (length acc))") auto
  show ?case
  proof (cases "transformIssue eng b i")
    case (Inl e)
    then show ?thesis by (simp add: n)
  next
    case (Inr r)
    show ?thesis
    proof (cases "int (length (acc @ [r])) \<ge> m")
      case True
      with n have "n = 0" by simp
      with True Inr n show ?thesis by (simp add: Let_def)
    next
      case False
      then have lt: "int (length (acc @ [r])) < m" by simp
      from n have n': "nat (m - int (length (acc @ [r]))) = n" by simp
      from False Inr have step: "push_issues eng b m acc (i # issues) = push_issues eng b m (acc @ [r]) issues"
        by (simp add: Let_def)
      have "push_issues eng b m (acc @ [r]) issues =
              (case normalize_all eng b (take n issues) of
                 Inl e \<Rightarrow> Inl e | Inr new \<Rightarrow> Inr ((acc @ [r]) @ new))"
        using Cons.IH [OF lt] by (simp only: n')
      with step show ?thesis
        by (simp add: n Inr split: sum.splits)
    qed
  qed
qed

lemma normalize_all_length:
  "normalize_all eng b issues = Inr rs \<Longrightarrow> length rs = length issues"
  by (induction issues arbitrary: rs) (auto split: sum.splits)

lemma push_issues_length:
  assumes "int (length acc) < m" and "push_issues eng b m acc issues = Inr acc'"
  shows "int (length acc') \<le> m" and "length acc \<le> length acc'"
proof -
  from assms obtain new where new: "normalize_all eng b (take (nat (m - int (length acc))) issues) = Inr new"
    and acc': "acc' = acc @ new"
    by (auto simp: push_issues_take split: sum.splits)
  from normalize_all_length [OF new] have "length new \<le> nat (m - int (length acc))" by simp
  with assms(1) acc' show "int (length acc') \<le> m" by simp
  from acc' show "length acc \<le> length acc'" by simp
qed


lemma fetch_loop_done:
  "\<not> int (length acc) < m \<Longrightarrow> fetch_loop eng b m ps acc cur replies = ([], Returned acc)"
  by (subst fetch_loop.simps) simp

lemma fetch_loop_page:
  assumes "int (length acc) < m" and "res_ok res" and "res_json res = Some data"
    and "data_issues data = Some issues" and "push_issues eng b m acc issues = Inr acc'"
  shows "fetch_loop eng b m ps acc cur (Response res # rest) =
     (let req = \<lparr> req_startAt = cur, req_maxResults = min ps (m - int (length acc)) \<rparr>;
          cur' = (case data_startAt data of Some s \<Rightarrow> s | None \<Rightarrow> cur)
                 + (case data_maxResults data of Some k \<Rightarrow> k | None \<Rightarrow> ps);
          total = (case data_total data of Some t \<Rightarrow> t | None \<Rightarrow> int (length acc'))
      in if cur' \<ge> total then ([req], Returned acc')
         else (case fetch_loop eng b m ps acc' cur' rest of (reqs, out) \<Rightarrow> (req # reqs, out)))"
  by (subst fetch_loop.simps) (simp add: assms Let_def)

lemma fetch_loop_refines:
  "int (length acc) < m \<Longrightarrow>
   fetch_loop eng b m (min 50 m) acc cur replies = spec_pages (\<lambda>requested. min 50 m) eng b m acc cur replies"
proof (induction replies arbitrary: acc cur)
  case Nil
  then show ?case by (subst fetch_loop.simps) simp
next
  case (Cons r replies)
  note guard = Cons.prems
  show ?case
  proof (cases r)
    case Rejected
    with guard show ?thesis by (subst fetch_loop.simps) simp
  next
    case (Response res)
    consider (failed) "\<not> res_ok res"
      | (unparsed) "res_ok res" "res_json res = None"
      | (no_issues) data where "res_ok res" "res_json res = Some data" "data_issues data = None"
      | (thrown) data issues e where "res_ok res" "res_json res = Some data"
          "data_issues data = Some issues"
          "normalize_all eng b (take (nat (m - int (length acc))) issues) = Inl e"
      | (page) data issues new where "res_ok res" "res_json res = Some data"
          "data_issues data = Some issues"
          "normalize_all eng b (take (nat (m - int (length acc))) issues) = Inr new"
      by (cases "res_ok res"; cases "res_json res"; cases "data_issues (the (res_json res))";
          cases "normalize_all eng b (take (nat (m - int (length acc))) (the (data_issues (the (res_json res)))))")
         auto
    then show ?thesis
    proof cases
      case failed
      with guard Response show ?thesis by (subst fetch_loop.simps) simp
    next
      case unparsed
      with guard Response show ?thesis by (subst fetch_loop.simps) simp
    next
      case no_issues
      with guard Response show ?thesis by (subst fetch_loop.simps) simp
    next
      case thrown
      with guard Response show ?thesis
        by (subst fetch_loop.simps) (simp add: push_issues_take)
    next
      case page
      note ok = page(1) and data = page(2) and issues = page(3) and new = page(4)
      from guard new have push: "push_issues eng b m acc issues = Inr (acc @ new)"
        by (simp add: push_issues_take)
      define cur' where "cur' = (case data_startAt data of Some s \<Rightarrow> s | None \<Rightarrow> cur)
                 + (case data_maxResults data of Some k \<Rightarrow> k | None \<Rightarrow> min 50 m)"
      define total where "total = (case data_total data of Some t \<Rightarrow> t | None \<Rightarrow> int (length (acc @ new)))"
      have code: "fetch_loop eng b m (min 50 m) acc cur (r # replies) =
          (if cur' \<ge> total then ([\<lparr> req_startAt = cur, req_maxResults = min 50 (m - int (length acc)) \<rparr>], Returned (acc @ new))
           else (case fetch_loop eng b m (min 50 m) (acc @ new) cur' replies of
                   (reqs, out) \<Rightarrow> (\<lparr> req_startAt = cur, req_maxResults = min 50 (m - int (length acc)) \<rparr> # reqs, out)))"
        unfolding Response fetch_loop_page [OF guard ok data issues push] cur'_def total_def
        by (simp add: Let_def min.assoc)
      have spec: "spec_pages (\<lambda>requested. min 50 m) eng b m acc cur (r # replies) =
          (if int (length (acc @ new)) < m \<and> cur' < total
           then (case spec_pages (\<lambda>requested. min 50 m) eng b m (acc @ new) cur' replies of
                   (reqs, out) \<Rightarrow> (\<lparr> req_startAt = cur, req_maxResults = min 50 (m - int (length acc)) \<rparr> # reqs, out))
           else ([\<lparr> req_startAt = cur, req_maxResults = min 50 (m - int (length acc)) \<rparr>], Returned (acc @ new)))"
        unfolding Response cur'_def total_def
        by (simp add: Let_def ok data issues new)
      show ?thesis
      proof (cases "int (length (acc @ new)) < m")
        case True
        from Cons.IH [OF True] show ?thesis
          unfolding code spec using True by auto
      next
        case False
        then show ?thesis
          unfolding code spec by (simp add: fetch_loop_done)
      qed
    qed
  qed
qed

lemma fetch_loop_turn:
  assumes guard: "int (length acc) < m"
  obtains (thrown) e where
      "fetch_loop eng b m ps acc cur (r # rest) =
         ([\<lparr> req_startAt = cur, req_maxResults = min ps (m - int (length acc)) \<rparr>], Threw e)"
      "\<And>res. r = Response res \<Longrightarrow> \<not> res_ok res \<Longrightarrow> e = ApiError (error_message res)"
  | (page) res data issues acc' where "r = Response res" "res_ok res" "res_json res = Some data"
      "data_issues data = Some issues" "push_issues eng b m acc issues = Inr acc'"
proof (cases r)
  case Rejected
  with guard have "fetch_loop eng b m ps acc cur (r # rest) =
         ([\<lparr> req_startAt = cur, req_maxResults = min ps (m - int (length acc)) \<rparr>], Threw NetworkError)"
    by (subst fetch_loop.simps) simp
  with Rejected show ?thesis by (intro thrown) auto
next
  case (Response res)
  show ?thesis
  proof (cases "res_ok res")
    case False
    with guard Response have "fetch_loop eng b m ps acc cur (r # rest) =
         ([\<lparr> req_startAt = cur, req_maxResults = min ps (m - int (length acc)) \<rparr>],
          Threw (ApiError (error_message res)))"
      by (subst fetch_loop.simps) simp
    with Response show ?thesis by (intro thrown) auto
  next
    case ok: True
    show ?thesis
    proof (cases "res_json res")
      case None
      with guard Response ok have "fetch_loop eng b m ps acc cur (r # rest) =
         ([\<lparr> req_startAt = cur, req_maxResults = min ps (m - int (length acc)) \<rparr>], Threw JsonError)"
        by (subst fetch_loop.simps) simp
      with Response ok show ?thesis by (intro thrown) auto
    next
      case (Some data)
      show ?thesis
      proof (cases "data_issues data")
        case None
        with guard Response ok Some have "fetch_loop eng b m ps acc cur (r # rest) =
         ([\<lparr> req_startAt = cur, req_maxResults = min ps (m - int (length acc)) \<rparr>], Threw TypeError)"
          by (subst fetch_loop.simps) simp
        with Response ok show ?thesis by (intro thrown) auto
      next
        case issues: (Some issues)
        show ?thesis
        proof (cases "push_issues eng b m acc issues")
          case (Inl e)
          with guard Response ok Some issues have "fetch_loop eng b m ps acc cur (r # rest) =
         ([\<lparr> req_startAt = cur, req_maxResults = min ps (m - int (length acc)) \<rparr>], Threw e)"
            by (subst fetch_loop.simps) simp
          with Response ok show ?thesis by (intro thrown) auto
        next
          case (Inr acc')
          with Response ok Some issues show ?thesis by (intro page)
        qed
      qed
    qed
  qed
qed

lemma fetch_loop_length:
  "int (length acc) \<le> m \<Longrightarrow> fetch_loop eng b m ps acc cur replies = (reqs, Returned recs)
     \<Longrightarrow> int (length recs) \<le> m"
proof (induction replies arbitrary: acc cur reqs)
  case Nil
  then show ?case
    by (subst (asm) fetch_loop.simps) (simp split: if_splits)
next
  case (Cons r replies)
  show ?case
  proof (cases "int (length acc) < m")
    case False
    with Cons.prems show ?thesis by (simp add: fetch_loop_done)
  next
    case guard: True
    then show ?thesis
    proof (cases rule: fetch_loop_turn [of acc m eng b ps cur r replies])
      case (thrown e)
      with Cons.prems(2) show ?thesis by simp
    next
      case (page res data issues acc')
      from push_issues_length(1) [OF guard page(5)] have le: "int (length acc') \<le> m" .
      from Cons.prems(2) le show ?thesis
        unfolding page(1) fetch_loop_page [OF guard page(2-5)]
        by (auto simp: Let_def split: if_splits prod.splits dest: Cons.IH [OF le])
    qed
  qed
qed

lemma fetch_loop_failure:
  "fetch_loop eng b m ps acc cur replies = (reqs, out) \<Longrightarrow> i < length reqs \<Longrightarrow> i < length replies
     \<Longrightarrow> replies ! i = Response res \<Longrightarrow> \<not> res_ok res
     \<Longrightarrow> out = Threw (ApiError (error_message res)) \<and> length reqs = Suc i"
proof (induction replies arbitrary: acc cur reqs i)
  case Nil
  then show ?case by simp
next
  case (Cons r replies)
  show ?case
  proof (cases "int (length acc) < m")
    case False
    with Cons.prems show ?thesis by (simp add: fetch_loop_done)
  next
    case guard: True
    then show ?thesis
    proof (cases rule: fetch_loop_turn [of acc m eng b ps cur r replies])
      case (thrown e)
      with Cons.prems show ?thesis by auto
    next
      case (page res' data issues acc')
      from Cons.prems(3-5) page(1,2) obtain j where i: "i = Suc j"
        by (cases i) auto
      from Cons.prems(1,2) i obtain reqs' where
        rest: "fetch_loop eng b m ps acc'
                 ((case data_startAt data of Some s \<Rightarrow> s | None \<Rightarrow> cur)
                   + (case data_maxResults data of Some k \<Rightarrow> k | None \<Rightarrow> ps)) replies = (reqs', out)"
        and reqs: "length reqs = Suc (length reqs')"
        unfolding page(1) fetch_loop_page [OF guard page(2-5)]
        by (auto simp: Let_def split: if_splits prod.splits)
      from Cons.IH [OF rest, of j] Cons.prems(2-5) i reqs show ?thesis by simp
    qed
  qed
qed

lemma fetch_loop_first_request:
  assumes guard: "int (length acc) < m"
  shows "\<exists>reqs out. fetch_loop eng b m ps acc cur replies
           = (\<lparr> req_startAt = cur, req_maxResults = min ps (m - int (length acc)) \<rparr> # reqs, out)"
proof (cases replies)
  case Nil
  with guard show ?thesis by (subst fetch_loop.simps) simp
next
  case (Cons r rest)
  from guard show ?thesis
  proof (cases rule: fetch_loop_turn [of acc m eng b ps cur r rest])
    case (thrown e)
    with Cons show ?thesis by simp
  next
    case (page res data issues acc')
    show ?thesis
      unfolding Cons page(1) fetch_loop_page [OF guard page(2-5)]
      by (simp add: Let_def split: prod.splits)
  qed
qed

text \<open>
  A server that omits \<^verbatim>\<open>total\<close> can keep the loop asking: after a first page with
  one issue that reports \<^verbatim>\<open>startAt\<close> 0 and \<^verbatim>\<open>maxResults\<close> 0, every further page with no
  issues and the same report leaves the cursor at 0, below the accumulated count 1.
  However many such pages the server sends, the fetch has issued one more request.
\<close>

lemma stalled_page:
  "fetch_loop example_engine site 10 10 [bare_record ''A-1''] 0 (replicate n (ok_page [] (Some 0) (Some 0) None))
     = (replicate (Suc n) \<lparr> req_startAt = 0, req_maxResults = 9 \<rparr>, Awaiting)"
proof (induction n)
  case 0
  show ?case by (subst fetch_loop.simps) simp
next
  case (Suc n)
  have guard: "int (length [bare_record ''A-1'']) < 10" by simp
  have ok: "res_ok (ok_response (page_data [] (Some 0) (Some 0) None))"
    and body: "res_json (ok_response (page_data [] (Some 0) (Some 0) None))
                 = Some (page_data [] (Some 0) (Some 0) None)"
    by (simp_all add: ok_response_def)
  have issues: "data_issues (page_data [] (Some 0) (Some 0) None) = Some []"
    by (simp add: page_data_def)
  have push: "push_issues example_engine site 10 [bare_record ''A-1''] [] = Inr [bare_record ''A-1'']"
    by simp
  show ?case
    unfolding replicate_Suc ok_page_def fetch_loop_page [OF guard ok body issues push]
    using Suc.IH by (simp add: page_data_def ok_page_def)
qed

lemma absent_total_never_stops:
  "getCurrentUserIssues example_engine site 10
     (ok_page [bare_issue ''A-1''] (Some 0) (Some 0) None # replicate n (ok_page [] (Some 0) (Some 0) None))
   = (\<lparr> req_startAt = 0, req_maxResults = 10 \<rparr>
        # replicate (Suc n) \<lparr> req_startAt = 0, req_maxResults = 9 \<rparr>, Awaiting)"
proof -
  have guard: "int (length ([] :: JiraIssue list)) < 10" by simp
  have ok: "res_ok (ok_response (page_data [bare_issue ''A-1''] (Some 0) (Some 0) None))"
    and body: "res_json (ok_response (page_data [bare_issue ''A-1''] (Some 0) (Some 0) None))
                 = Some (page_data [bare_issue ''A-1''] (Some 0) (Some 0) None)"
    by (simp_all add: ok_response_def)
  have issues: "data_issues (page_data [bare_issue ''A-1''] (Some 0) (Some 0) None)
                  = Some [bare_issue ''A-1'']"
    by (simp add: page_data_def)
  have push: "push_issues example_engine site 10 [] [bare_issue ''A-1''] = Inr [bare_record ''A-1'']"
    by code_simp
  show ?thesis
    unfolding getCurrentUserIssues_def Let_def ok_page_def [of "[bare_issue ''A-1'']"]
      fetch_loop_page [OF guard ok body issues push]
    by (simp add: page_data_def stalled_page)
qed

subsection \<open>The claims\<close>

text \<open>
  C1. For every positive \<open>maxCount\<close> and every sequence of replies, the records the
  fetch returns are at most \<open>maxCount\<close>.
\<close>

theorem fetch_length_bounded:
  assumes "0 < maxCount"
    and "getCurrentUserIssues eng baseUrl maxCount replies = (reqs, Returned recs)"
  shows "int (length recs) \<le> maxCount"
  using assms fetch_loop_length [of "[]" maxCount eng baseUrl "min 50 maxCount" 0 replies reqs recs]
  by (simp add: getCurrentUserIssues_def)

theorem fetch_length_bounded_witness:
  "(0::int) < 3 \<and>
   getCurrentUserIssues example_engine site 3
       [ok_page [bare_issue ''A-1'', bare_issue ''A-2'', bare_issue ''A-3'', bare_issue ''A-4'',
                 bare_issue ''A-5''] (Some 0) (Some 5) (Some 7)]
     = ([\<lparr> req_startAt = 0, req_maxResults = 3 \<rparr>],
        Returned [bare_record ''A-1'', bare_record ''A-2'', bare_record ''A-3'']) \<and>
   int (length [bare_record ''A-1'', bare_record ''A-2'', bare_record ''A-3'']) \<le> 3"
proof -
  have pos: "(0::int) < 3" by simp
  have run: "getCurrentUserIssues example_engine site 3
       [ok_page [bare_issue ''A-1'', bare_issue ''A-2'', bare_issue ''A-3'', bare_issue ''A-4'',
                 bare_issue ''A-5''] (Some 0) (Some 5) (Some 7)]
     = ([\<lparr> req_startAt = 0, req_maxResults = 3 \<rparr>],
        Returned [bare_record ''A-1'', bare_record ''A-2'', bare_record ''A-3''])"
    by code_simp
  from pos run fetch_length_bounded [OF pos run] show ?thesis by blast
qed

text \<open>
  C2, as stated. Each request asks for the smaller of 50 and the count still
  needed, the cursor advances by the reported \<^verbatim>\<open>maxResults\<close> or else by the page
  size requested, and a further page is requested exactly when the accumulator is
  below \<open>maxCount\<close> and the cursor below the total (or the accumulated count). This
  is \<open>spec_fetch_requested_fallback\<close>, and the code departs from it: with
  \<open>maxCount = 5\<close>, a first page of two issues reporting \<^verbatim>\<open>startAt\<close> 0, \<^verbatim>\<open>maxResults\<close> 2
  and \<^verbatim>\<open>total\<close> 10, and a second page of two issues reporting only \<^verbatim>\<open>total\<close> 10, the
  second request asks for 3, yet the code's third request starts at 2 + 5 = 7, not
  at 2 + 3 = 5.
\<close>

theorem cursor_fallback_counterexample:
  "fst (getCurrentUserIssues example_engine site 5
            [ok_page [bare_issue ''A-1'', bare_issue ''A-2''] (Some 0) (Some 2) (Some 10),
             ok_page [bare_issue ''A-3'', bare_issue ''A-4''] None None (Some 10)])
       = [\<lparr> req_startAt = 0, req_maxResults = 5 \<rparr>, \<lparr> req_startAt = 2, req_maxResults = 3 \<rparr>,
          \<lparr> req_startAt = 7, req_maxResults = 1 \<rparr>]
    \<and> fst (spec_fetch_requested_fallback example_engine site 5
            [ok_page [bare_issue ''A-1'', bare_issue ''A-2''] (Some 0) (Some 2) (Some 10),
             ok_page [bare_issue ''A-3'', bare_issue ''A-4''] None None (Some 10)])
       = [\<lparr> req_startAt = 0, req_maxResults = 5 \<rparr>, \<lparr> req_startAt = 2, req_maxResults = 3 \<rparr>,
          \<lparr> req_startAt = 5, req_maxResults = 1 \<rparr>]"
  by code_simp

text \<open>
  C2, amended. For every positive \<open>maxCount\<close> and every sequence of replies, the
  requests issued and the outcome of the code are those of the specification's
  pagination in which the fallback for an unreported \<^verbatim>\<open>maxResults\<close> is the fixed page
  size, the smaller of 50 and \<open>maxCount\<close>: each request asks for the smaller of 50
  and the count still needed, the cursor advances to the reported (or else local)
  \<^verbatim>\<open>startAt\<close> plus the reported \<^verbatim>\<open>maxResults\<close> (or else that fixed page size), and a
  further page is requested exactly when the accumulator is below \<open>maxCount\<close> and the
  cursor is below the reported total (or else the accumulated count).
\<close>

theorem pagination_refines_spec:
  assumes "0 < maxCount"
  shows "getCurrentUserIssues eng baseUrl maxCount replies
           = spec_fetch_fixed_fallback eng baseUrl maxCount replies"
  using assms fetch_loop_refines [of "[]" maxCount eng baseUrl 0 replies]
  by (simp add: getCurrentUserIssues_def spec_fetch_fixed_fallback_def)

theorem pagination_refines_spec_witness:
  "(0::int) < 5 \<and>
   getCurrentUserIssues example_engine site 5
      [ok_page [bare_issue ''A-1'', bare_issue ''A-2''] (Some 0) (Some 2) (Some 10),
       ok_page [bare_issue ''A-3'', bare_issue ''A-4''] None None (Some 10)]
     = spec_fetch_fixed_fallback example_engine site 5
      [ok_page [bare_issue ''A-1'', bare_issue ''A-2''] (Some 0) (Some 2) (Some 10),
       ok_page [bare_issue ''A-3'', bare_issue ''A-4''] None None (Some 10)] \<and>
   fst (spec_fetch_fixed_fallback example_engine site 5
      [ok_page [bare_issue ''A-1'', bare_issue ''A-2''] (Some 0) (Some 2) (Some 10),
       ok_page [bare_issue ''A-3'', bare_issue ''A-4''] None None (Some 10)])
     = [\<lparr> req_startAt = 0, req_maxResults = 5 \<rparr>, \<lparr> req_startAt = 2, req_maxResults = 3 \<rparr>,
        \<lparr> req_startAt = 7, req_maxResults = 1 \<rparr>]"
proof -
  have pos: "(0::int) < 5" by simp
  have spec: "fst (spec_fetch_fixed_fallback example_engine site 5
      [ok_page [bare_issue ''A-1'', bare_issue ''A-2''] (Some 0) (Some 2) (Some 10),
       ok_page [bare_issue ''A-3'', bare_issue ''A-4''] None None (Some 10)])
     = [\<lparr> req_startAt = 0, req_maxResults = 5 \<rparr>, \<lparr> req_startAt = 2, req_maxResults = 3 \<rparr>,
        \<lparr> req_startAt = 7, req_maxResults = 1 \<rparr>]"
    by code_simp
  from pos spec pagination_refines_spec [OF pos] show ?thesis by blast
qed

text \<open>
  C3. If the reply to any request of the fetch is a response with a non-success
  status, the fetch throws an error whose message is \<^verbatim>\<open>Jira API error:\<close> followed by
  the status code, the status text, the response body and a hint: the
  authentication hint for 401 and 403, the query hint for 400, none otherwise. That
  request is the last one issued, and the outcome holds no records, whatever
  earlier pages delivered.
\<close>

theorem http_failure_aborts:
  assumes "getCurrentUserIssues eng baseUrl maxCount replies = (reqs, out)"
    and "i < length reqs" and "i < length replies"
    and "replies ! i = Response res" and "\<not> res_ok res"
  shows "(\<exists>hint.
            out = Threw (ApiError (ascii ''Jira API error: '' @ number_toString (res_status res)
                                    @ ascii '' '' @ res_statusText res @ ascii '' - '' @ res_text res
                                    @ hint))
            \<and> (res_status res = 401 \<or> res_status res = 403 \<longrightarrow>
                 hint = ascii '' Check your site URL (e.g. https://yourcompany.atlassian.net), email, and API token permissions.'')
            \<and> (res_status res = 400 \<longrightarrow> hint = ascii '' The JQL or fields may be invalid for this site.'')
            \<and> (res_status res \<notin> {400, 401, 403} \<longrightarrow> hint = []))
         \<and> length reqs = Suc i
         \<and> (\<forall>recs. out \<noteq> Returned recs)"
proof -
  from assms have "out = Threw (ApiError (error_message res)) \<and> length reqs = Suc i"
    unfolding getCurrentUserIssues_def Let_def by (rule fetch_loop_failure)
  then show ?thesis
    by (auto simp: error_message_def error_hint_def)
qed

theorem http_failure_aborts_witness:
  "getCurrentUserIssues example_engine site 10
       [ok_page [bare_issue ''A-1'', bare_issue ''A-2''] (Some 0) (Some 2) (Some 7),
        Response (failed 401 ''Unauthorized'' ''denied'')]
     = ([\<lparr> req_startAt = 0, req_maxResults = 10 \<rparr>, \<lparr> req_startAt = 2, req_maxResults = 8 \<rparr>],
        Threw (ApiError (ascii ''Jira API error: 401 Unauthorized - denied Check your site URL (e.g. https://yourcompany.atlassian.net), email, and API token permissions.'')))
   \<and> (1::nat) < length [\<lparr> req_startAt = 0, req_maxResults = 10 \<rparr>, \<lparr> req_startAt = 2, req_maxResults = 8 \<rparr>]
   \<and> (1::nat) < length [ok_page [bare_issue ''A-1'', bare_issue ''A-2''] (Some 0) (Some 2) (Some 7),
                         Response (failed 401 ''Unauthorized'' ''denied'')]
   \<and> [ok_page [bare_issue ''A-1'', bare_issue ''A-2''] (Some 0) (Some 2) (Some 7),
        Response (failed 401 ''Unauthorized'' ''denied'')] ! 1
       = Response (failed 401 ''Unauthorized'' ''denied'')
   \<and> \<not> res_ok (failed 401 ''Unauthorized'' ''denied'')
   \<and> length [\<lparr> req_startAt = 0, req_maxResults = 10 \<rparr>, \<lparr> req_startAt = 2, req_maxResults = (8::int) \<rparr>]
       = Suc 1"
proof -
  have run: "getCurrentUserIssues example_engine site 10
       [ok_page [bare_issue ''A-1'', bare_issue ''A-2''] (Some 0) (Some 2) (Some 7),
        Response (failed 401 ''Unauthorized'' ''denied'')]
     = ([\<lparr> req_startAt = 0, req_maxResults = 10 \<rparr>, \<lparr> req_startAt = 2, req_maxResults = 8 \<rparr>],
        Threw (ApiError (ascii ''Jira API error: 401 Unauthorized - denied Check your site URL (e.g. https://yourcompany.atlassian.net), email, and API token permissions.'')))"
    by code_simp
  have reached: "(1::nat) < length [\<lparr> req_startAt = 0, req_maxResults = 10 \<rparr>, \<lparr> req_startAt = 2, req_maxResults = (8::int) \<rparr>]"
    by simp
  have replied: "(1::nat) < length [ok_page [bare_issue ''A-1'', bare_issue ''A-2''] (Some 0) (Some 2) (Some 7),
                         Response (failed 401 ''Unauthorized'' ''denied'')]"
    by simp
  have reply: "[ok_page [bare_issue ''A-1'', bare_issue ''A-2''] (Some 0) (Some 2) (Some 7),
        Response (failed 401 ''Unauthorized'' ''denied'')] ! 1
       = Response (failed 401 ''Unauthorized'' ''denied'')"
    by simp
  have bad: "\<not> res_ok (failed 401 ''Unauthorized'' ''denied'')"
    by (simp add: failed_def)
  from http_failure_aborts [OF run reached replied reply bad]
  have "length [\<lparr> req_startAt = 0, req_maxResults = 10 \<rparr>, \<lparr> req_startAt = 2, req_maxResults = (8::int) \<rparr>]
       = Suc 1"
    by blast
  with run reached replied reply bad show ?thesis by blast
qed

text \<open>
  C8, as stated. Whenever a successful page omits \<^verbatim>\<open>total\<close>, the loop stops after
  that page. It does not: with \<open>maxToReturn = 10\<close>, a first page of three issues that
  reports \<^verbatim>\<open>maxResults\<close> 2 and neither \<^verbatim>\<open>startAt\<close> nor \<^verbatim>\<open>total\<close> moves the cursor to
  0 + 2 = 2, the total falls back to the accumulated count 3, and since 2 < 3 a
  second request (from 2, for 7) is issued. (\<open>absent_total_never_stops\<close> above has
  a server for which the requests never end.)
\<close>

theorem absent_total_counterexample:
  "data_total (page_data [bare_issue ''A-1'', bare_issue ''A-2'', bare_issue ''A-3''] None (Some 2) None) = None
   \<and> getCurrentUserIssues example_engine site 10
       [ok_page [bare_issue ''A-1'', bare_issue ''A-2'', bare_issue ''A-3''] None (Some 2) None]
     = ([\<lparr> req_startAt = 0, req_maxResults = 10 \<rparr>, \<lparr> req_startAt = 2, req_maxResults = 7 \<rparr>],
        Awaiting)"
  by code_simp

text \<open>
  C8, amended. In any turn of the loop in which a successful page omits \<^verbatim>\<open>total\<close>,
  the total falls back to the accumulated count, and the loop stops after that page,
  returning the accumulator, if the advanced cursor (the reported or else local
  \<^verbatim>\<open>startAt\<close>, plus the reported \<^verbatim>\<open>maxResults\<close> or else the page size) is at least the
  accumulated count or the accumulator has reached \<open>maxToReturn\<close>; otherwise the next
  request is issued, from the advanced cursor.
\<close>

theorem absent_total_stops:
  assumes "int (length acc) < maxToReturn"
    and "res_ok res" and "res_json res = Some data" and "data_total data = None"
    and "data_issues data = Some issues"
    and "push_issues eng baseUrl maxToReturn acc issues = Inr acc'"
    and "cursor = (case data_startAt data of Some s \<Rightarrow> s | None \<Rightarrow> startAt)
                  + (case data_maxResults data of Some k \<Rightarrow> k | None \<Rightarrow> pageSize)"
  shows "if int (length acc') \<le> cursor \<or> maxToReturn \<le> int (length acc')
         then fetch_loop eng baseUrl maxToReturn pageSize acc startAt (Response res # rest)
                = ([\<lparr> req_startAt = startAt,
                      req_maxResults = min pageSize (maxToReturn - int (length acc)) \<rparr>],
                   Returned acc')
         else \<exists>reqs out.
                fetch_loop eng baseUrl maxToReturn pageSize acc startAt (Response res # rest)
                  = (\<lparr> req_startAt = startAt,
                       req_maxResults = min pageSize (maxToReturn - int (length acc)) \<rparr>
                     # \<lparr> req_startAt = cursor,
                         req_maxResults = min pageSize (maxToReturn - int (length acc')) \<rparr>
                     # reqs, out)"
proof (cases "int (length acc') \<le> cursor")
  case True
  then show ?thesis
    unfolding fetch_loop_page [OF assms(1,2,3,5,6)] assms(4,7) by (simp add: Let_def)
next
  case far: False
  show ?thesis
  proof (cases "maxToReturn \<le> int (length acc')")
    case True
    with far show ?thesis
      unfolding fetch_loop_page [OF assms(1,2,3,5,6)] assms(4,7)
      by (simp add: Let_def fetch_loop_done)
  next
    case False
    then have guard': "int (length acc') < maxToReturn" by simp
    from fetch_loop_first_request [OF guard'] obtain reqs out where
      "fetch_loop eng baseUrl maxToReturn pageSize acc' cursor rest
         = (\<lparr> req_startAt = cursor,
              req_maxResults = min pageSize (maxToReturn - int (length acc')) \<rparr> # reqs, out)"
      by blast
    with far False show ?thesis
      unfolding fetch_loop_page [OF assms(1,2,3,5,6)] assms(4)
      by (simp add: Let_def assms(7) [symmetric])
  qed
qed

theorem absent_total_stops_witness:
  "int (length ([] :: JiraIssue list)) < 10
   \<and> res_ok (ok_response (page_data [bare_issue ''A-1'', bare_issue ''A-2''] None None None))
   \<and> res_json (ok_response (page_data [bare_issue ''A-1'', bare_issue ''A-2''] None None None))
       = Some (page_data [bare_issue ''A-1'', bare_issue ''A-2''] None None None)
   \<and> data_total (page_data [bare_issue ''A-1'', bare_issue ''A-2''] None None None) = None
   \<and> data_issues (page_data [bare_issue ''A-1'', bare_issue ''A-2''] None None None)
       = Some [bare_issue ''A-1'', bare_issue ''A-2'']
   \<and> push_issues example_engine site 10 [] [bare_issue ''A-1'', bare_issue ''A-2'']
       = Inr [bare_record ''A-1'', bare_record ''A-2'']
   \<and> fetch_loop example_engine site 10 10 [] 0
        [Response (ok_response (page_data [bare_issue ''A-1'', bare_issue ''A-2''] None None None)),
         Rejected]
       = ([\<lparr> req_startAt = 0, req_maxResults = 10 \<rparr>],
          Returned [bare_record ''A-1'', bare_record ''A-2''])"
proof -
  have guard: "int (length ([] :: JiraIssue list)) < 10" by simp
  have ok: "res_ok (ok_response (page_data [bare_issue ''A-1'', bare_issue ''A-2''] None None None))"
    by (simp add: ok_response_def)
  have body: "res_json (ok_response (page_data [bare_issue ''A-1'', bare_issue ''A-2''] None None None))
       = Some (page_data [bare_issue ''A-1'', bare_issue ''A-2''] None None None)"
    by (simp add: ok_response_def)
  have no_total: "data_total (page_data [bare_issue ''A-1'', bare_issue ''A-2''] None None None) = None"
    by (simp add: page_data_def)
  have issues: "data_issues (page_data [bare_issue ''A-1'', bare_issue ''A-2''] None None None)
       = Some [bare_issue ''A-1'', bare_issue ''A-2'']"
    by (simp add: page_data_def)
  have pushed: "push_issues example_engine site 10 [] [bare_issue ''A-1'', bare_issue ''A-2'']
       = Inr [bare_record ''A-1'', bare_record ''A-2'']"
    by code_simp
  have cursor: "(10::int) = (case data_startAt (page_data [bare_issue ''A-1'', bare_issue ''A-2''] None None None)
                        of Some s \<Rightarrow> s | None \<Rightarrow> 0)
                  + (case data_maxResults (page_data [bare_issue ''A-1'', bare_issue ''A-2''] None None None)
                        of Some k \<Rightarrow> k | None \<Rightarrow> 10)"
    by (simp add: page_data_def)
  from absent_total_stops [OF guard ok body no_total issues pushed cursor, of "[Rejected]"]
  have "fetch_loop example_engine site 10 10 [] 0
        [Response (ok_response (page_data [bare_issue ''A-1'', bare_issue ''A-2''] None None None)),
         Rejected]
       = ([\<lparr> req_startAt = 0, req_maxResults = 10 \<rparr>],
          Returned [bare_record ''A-1'', bare_record ''A-2''])"
    by simp
  with guard ok body no_total issues pushed show ?thesis by blast
qed

text \<open>
  C10. For every \<open>maxToReturn \<le> 0\<close> the fetch returns the empty sequence and issues
  no request, whatever the server would have replied: the guard of the \<^verbatim>\<open>while\<close>
  loop is false on entry.
\<close>

theorem nonpositive_max_no_request:
  assumes "maxToReturn \<le> 0"
  shows "getCurrentUserIssues eng baseUrl maxToReturn replies = ([], Returned [])"
  using assms by (simp add: getCurrentUserIssues_def fetch_loop.simps)

theorem nonpositive_max_no_request_witness:
  "(- 3 :: int) \<le> 0 \<and>
   getCurrentUserIssues example_engine (ascii ''https://x.atlassian.net'') (- 3)
     [Response \<lparr> res_ok = False, res_status = 401, res_statusText = ascii ''Unauthorized'',
                  res_text = [], res_json = None \<rparr>] = ([], Returned [])"
  using nonpositive_max_no_request [of "- 3"] by simp

section \<open>The claims about the normalizer\<close>

text \<open>
  C4, as stated. Every field of the record is populated, never empty, null or
  undefined, and absent or malformed server data becomes the sentinel. It does not:
  an empty-string summary and a numeric summary are passed on as they are (\<^verbatim>\<open>??\<close>
  replaces only \<^verbatim>\<open>null\<close> and \<^verbatim>\<open>undefined\<close>), and an issue without a key yields the
  key \<^verbatim>\<open>undefined\<close>.
\<close>

theorem populated_counterexample:
  "transformIssue example_engine site (issue_with_summary ''ABC-1'' (JStr []))
     = Inr ((bare_record ''ABC-1'') \<lparr> summary := JStr [] \<rparr>)
   \<and> transformIssue example_engine site (issue_with_summary ''ABC-1'' (JNum 42))
     = Inr ((bare_record ''ABC-1'') \<lparr> summary := JNum 42 \<rparr>)
   \<and> transformIssue example_engine site (JObj [])
     = Inr ((bare_record ''ABC-1'')
              \<lparr> key := JUndefined, url := ascii ''https://x.atlassian.net/browse/undefined'' \<rparr>)"
  by code_simp

text \<open>
  C4, amended. For every raw issue that the normalizer returns a record for:
  \<^verbatim>\<open>key\<close> is the issue's \<^verbatim>\<open>key\<close> property as it is (undefined when there is none);
  \<^verbatim>\<open>summary\<close>, \<^verbatim>\<open>issueType\<close>, \<^verbatim>\<open>status\<close> and \<^verbatim>\<open>priority\<close> are never null or
  undefined: each is its sentinel (\<^verbatim>\<open>No Summary\<close>, \<^verbatim>\<open>Unknown\<close>) when its access path
  is null or missing at some level, and the server's value unchanged otherwise;
  \<^verbatim>\<open>description\<close> is never empty and is \<^verbatim>\<open>No description\<close> when the field is absent
  or empty; \<^verbatim>\<open>url\<close> is the base URL without its trailing slashes, followed by
  \<^verbatim>\<open>/browse/\<close> and the key converted to a string, and so never empty.
\<close>

theorem normalized_fields:
  assumes "transformIssue eng baseUrl issue = Inr r"
    and "fs = opt_get issue (ascii ''fields'')"
  shows "key r = get_prop issue (ascii ''key'')
       \<and> summary r = (if nullish (opt_get fs (ascii ''summary'')) then JStr (ascii ''No Summary'')
                      else opt_get fs (ascii ''summary''))
       \<and> issueType r = (if nullish (opt_get (opt_get fs (ascii ''issuetype'')) (ascii ''name''))
                        then JStr (ascii ''Unknown'')
                        else opt_get (opt_get fs (ascii ''issuetype'')) (ascii ''name''))
       \<and> status r = (if nullish (opt_get (opt_get fs (ascii ''status'')) (ascii ''name''))
                     then JStr (ascii ''Unknown'')
                     else opt_get (opt_get fs (ascii ''status'')) (ascii ''name''))
       \<and> priority r = (if nullish (opt_get (opt_get fs (ascii ''priority'')) (ascii ''name''))
                       then JStr (ascii ''Unknown'')
                       else opt_get (opt_get fs (ascii ''priority'')) (ascii ''name''))
       \<and> \<not> nullish (summary r) \<and> \<not> nullish (issueType r) \<and> \<not> nullish (status r)
       \<and> \<not> nullish (priority r)
       \<and> description r \<noteq> []
       \<and> (\<not> truthy (opt_get fs (ascii ''description'')) \<longrightarrow> description r = ascii ''No description'')
       \<and> (\<exists>key_text. js_toString (number_text eng) (template_frames eng) (key r) = Inr key_text
                      \<and> url r = strip_trailing_slashes baseUrl @ ascii ''/browse/'' @ key_text)
       \<and> url r \<noteq> []"
proof -
  from assms(1) obtain key_text where "\<not> nullish issue"
    and kt: "js_toString (number_text eng) (template_frames eng) (get_prop issue (ascii ''key'')) = Inr key_text"
    by (rule transformIssue_returned)
  note run = assms(1) [unfolded transformIssue_returns [OF this]]
  have str: "\<not> nullish (JStr x)" for x by (simp add: nullish_def)
  from run assms(2) have field_values:
    "key r = get_prop issue (ascii ''key'')"
    "summary r = nullish_or (opt_get fs (ascii ''summary'')) (JStr (ascii ''No Summary''))"
    "issueType r = nullish_or (opt_get (opt_get fs (ascii ''issuetype'')) (ascii ''name'')) (JStr (ascii ''Unknown''))"
    "status r = nullish_or (opt_get (opt_get fs (ascii ''status'')) (ascii ''name'')) (JStr (ascii ''Unknown''))"
    "priority r = nullish_or (opt_get (opt_get fs (ascii ''priority'')) (ascii ''name'')) (JStr (ascii ''Unknown''))"
    "description r = truncate_description (extractDescription eng (opt_get fs (ascii ''description'')))"
    "url r = strip_trailing_slashes baseUrl @ ascii ''/browse/'' @ key_text"
    by auto
  have short: "truncate_description (ascii ''No description'') = ascii ''No description''"
    by (simp add: truncate_description_def maxLength_def ascii_def)
  have absent: "\<not> truthy d \<Longrightarrow> extractDescription eng d = ascii ''No description''" for d
    by (simp add: extractDescription_def no_description_def)
  show ?thesis
    unfolding field_values
    by (simp add: nullish_or_not_nullish str truncate_description_nonempty
        extractDescription_nonempty ascii_nonempty absent short kt)
      (simp add: nullish_or_def)
qed

theorem normalized_fields_witness:
  "transformIssue example_engine site (issue_with_summary ''ABC-1'' (JStr []))
     = Inr ((bare_record ''ABC-1'') \<lparr> summary := JStr [] \<rparr>)
   \<and> JObj [(ascii ''summary'', JStr [])]
       = opt_get (issue_with_summary ''ABC-1'' (JStr [])) (ascii ''fields'')
   \<and> key ((bare_record ''ABC-1'') \<lparr> summary := JStr [] \<rparr>)
       = get_prop (issue_with_summary ''ABC-1'' (JStr [])) (ascii ''key'')
   \<and> \<not> nullish (summary ((bare_record ''ABC-1'') \<lparr> summary := JStr [] \<rparr>))
   \<and> issueType ((bare_record ''ABC-1'') \<lparr> summary := JStr [] \<rparr>) = JStr (ascii ''Unknown'')
   \<and> description ((bare_record ''ABC-1'') \<lparr> summary := JStr [] \<rparr>) = ascii ''No description''
   \<and> url ((bare_record ''ABC-1'') \<lparr> summary := JStr [] \<rparr>)
       = ascii ''https://x.atlassian.net/browse/ABC-1''"
proof -
  have run: "transformIssue example_engine site (issue_with_summary ''ABC-1'' (JStr []))
     = Inr ((bare_record ''ABC-1'') \<lparr> summary := JStr [] \<rparr>)"
    by code_simp
  have fs: "JObj [(ascii ''summary'', JStr [])]
       = opt_get (issue_with_summary ''ABC-1'' (JStr [])) (ascii ''fields'')"
    by code_simp
  from normalized_fields [OF run fs]
  have "key ((bare_record ''ABC-1'') \<lparr> summary := JStr [] \<rparr>)
          = get_prop (issue_with_summary ''ABC-1'' (JStr [])) (ascii ''key'')"
    and "\<not> nullish (summary ((bare_record ''ABC-1'') \<lparr> summary := JStr [] \<rparr>))"
    by blast+
  moreover have "url ((bare_record ''ABC-1'') \<lparr> summary := JStr [] \<rparr>)
       = ascii ''https://x.atlassian.net/browse/ABC-1''"
    by (simp add: bare_record_def ascii_def)
  ultimately show ?thesis using run fs by (simp add: bare_record_def)
qed

text \<open>
  C6. A description longer than 100 is cut to its first 100 code units, but what
  is appended is not an ellipsis: it is the three code units of the source's
  mis-encoded literal. The cut counts code units, so it can fall between the two
  halves of a surrogate pair.
\<close>

theorem truncation_suffix_not_ellipsis:
  "transformIssue example_engine site (issue_with_description ''ABC-1'' (JStr (replicate 120 0x61)))
     = Inr ((bare_record ''ABC-1'') \<lparr> description := replicate 100 0x61 @ [0xE2, 0x20AC, 0xA6] \<rparr>)
   \<and> replicate 100 0x61 @ [0xE2, 0x20AC, 0xA6] \<noteq> replicate 100 0x61 @ ellipsis
   \<and> transformIssue example_engine site
         (issue_with_description ''ABC-1'' (JStr (replicate 99 0x61 @ [0xD83D, 0xDE00] @ replicate 20 0x61)))
     = Inr ((bare_record ''ABC-1'')
              \<lparr> description := replicate 99 0x61 @ [0xD83D] @ [0xE2, 0x20AC, 0xA6] \<rparr>)"
  by code_simp

text \<open>
  C7. The normalizer is not total: on a \<^verbatim>\<open>null\<close> or \<^verbatim>\<open>undefined\<close> issue it throws a
  TypeError at \<^verbatim>\<open>issue.key\<close>, and a page that holds such an element makes the whole
  fetch throw.
\<close>

theorem null_issue_throws:
  "transformIssue example_engine site JNull = Inl TypeError
   \<and> transformIssue example_engine site JUndefined = Inl TypeError
   \<and> getCurrentUserIssues example_engine site 10
         [ok_page [bare_issue ''A-1'', JNull] (Some 0) (Some 50) (Some 2)]
       = ([\<lparr> req_startAt = 0, req_maxResults = 10 \<rparr>], Threw TypeError)"
  by code_simp

text \<open>
  C9. For every base URL and every issue whose key is the string \<open>k\<close>, the url of
  the record is \<open>stem\<close> followed by \<^verbatim>\<open>/browse/\<close> and \<open>k\<close>, where \<open>stem\<close> is the base URL
  without its trailing slashes: the base URL is \<open>stem\<close> followed by slashes only, and
  \<open>stem\<close> does not end in a slash.
\<close>

theorem url_derivation:
  assumes "get_prop issue (ascii ''key'') = JStr k"
  shows "\<exists>r stem n. transformIssue eng baseUrl issue = Inr r
           \<and> baseUrl = stem @ replicate n 0x2F \<and> (stem = [] \<or> last stem \<noteq> 0x2F)
           \<and> url r = stem @ ascii ''/browse/'' @ k"
proof -
  from assms have "\<not> nullish issue" by (auto simp: nullish_def)
  moreover from assms
  have "js_toString (number_text eng) (template_frames eng) (get_prop issue (ascii ''key'')) = Inr k"
    by simp
  ultimately have run: "transformIssue eng baseUrl issue =
     Inr \<lparr> key = get_prop issue (ascii ''key''),
           summary = nullish_or (opt_get (opt_get issue (ascii ''fields'')) (ascii ''summary''))
                       (JStr (ascii ''No Summary'')),
           description = truncate_description
             (extractDescription eng (opt_get (opt_get issue (ascii ''fields'')) (ascii ''description''))),
           issueType = nullish_or
             (opt_get (opt_get (opt_get issue (ascii ''fields'')) (ascii ''issuetype'')) (ascii ''name''))
             (JStr (ascii ''Unknown'')),
           status = nullish_or
             (opt_get (opt_get (opt_get issue (ascii ''fields'')) (ascii ''status'')) (ascii ''name''))
             (JStr (ascii ''Unknown'')),
           priority = nullish_or
             (opt_get (opt_get (opt_get issue (ascii ''fields'')) (ascii ''priority'')) (ascii ''name''))
             (JStr (ascii ''Unknown'')),
           url = strip_trailing_slashes baseUrl @ ascii ''/browse/'' @ k \<rparr>"
    by (rule transformIssue_returns)
  from strip_trailing_slashes_decomp [of baseUrl] obtain n
    where "baseUrl = strip_trailing_slashes baseUrl @ replicate n 0x2F" ..
  with run strip_trailing_slashes_last [of baseUrl] show ?thesis
    by (intro exI [of _ "strip_trailing_slashes baseUrl"] exI [of _ n] exI) auto
qed

theorem url_derivation_witness:
  "get_prop (bare_issue ''ABC-1'') (ascii ''key'') = JStr (ascii ''ABC-1'')
   \<and> (\<exists>r stem n. transformIssue example_engine site (bare_issue ''ABC-1'') = Inr r
           \<and> site = stem @ replicate n 0x2F \<and> (stem = [] \<or> last stem \<noteq> 0x2F)
           \<and> url r = stem @ ascii ''/browse/'' @ ascii ''ABC-1'')
   \<and> site = ascii ''https://x.atlassian.net/''
   \<and> transformIssue example_engine site (bare_issue ''ABC-1'')
       = Inr ((bare_record ''ABC-1'') \<lparr> url := ascii ''https://x.atlassian.net/browse/ABC-1'' \<rparr>)"
proof -
  have k: "get_prop (bare_issue ''ABC-1'') (ascii ''key'') = JStr (ascii ''ABC-1'')"
    by (simp add: bare_issue_def)
  have run: "transformIssue example_engine site (bare_issue ''ABC-1'')
       = Inr ((bare_record ''ABC-1'') \<lparr> url := ascii ''https://x.atlassian.net/browse/ABC-1'' \<rparr>)"
    by code_simp
  from k run url_derivation [OF k, of example_engine site] show ?thesis
    by (simp add: site_def)
qed

section \<open>The claim about the extractor\<close>

text \<open>
  C5, as stated. For a structured document the extractor returns the literal text
  payloads of all text-tagged nodes, joined and normalized, and the sentinel only
  when that is empty. It does not: when one text-tagged node carries an object with
  an own \<^verbatim>\<open>toString\<close> property as its \<^verbatim>\<open>text\<close>, \<^verbatim>\<open>parts.join(' ')\<close> throws, the
  \<^verbatim>\<open>catch\<close> swallows it, and the sentinel is returned although the nodes beside it
  carry the texts \<^verbatim>\<open>a\<close> and \<^verbatim>\<open>b\<close>.
\<close>

theorem unconvertible_payload_counterexample:
  "extractDescription example_engine
     (with_content [text_node ''a'', tagged_node (JObj [(ascii ''toString'', JNum 0)]), text_node ''b''])
     = ascii ''No description''
   \<and> spec_extractText
     (with_content [text_node ''a'', tagged_node (JObj [(ascii ''toString'', JNum 0)]), text_node ''b''])
     = ascii ''a b''"
  by code_simp

text \<open>
  C5, amended. For every engine and every field value the extractor returns: the
  sentinel \<^verbatim>\<open>No description\<close> when the field is absent or empty; the trimmed string
  for a plain string, or the sentinel if that is empty; and otherwise the payloads
  of all text-tagged nodes below the field, in depth-first pre-order (a truthy
  payload that is not a string converted to one), joined with one space, every run
  of whitespace collapsed to one space and the ends trimmed, or the sentinel if
  that is empty or if the traversal fails, because the nodes are nested deeper than
  the call stack has room for or a payload cannot be converted to a string. For a
  document whose text-tagged nodes carry strings and whose nesting the stack has
  room for, this is the extractor of the specification as it stands.
\<close>

theorem extractDescription_failsafe:
  "extractDescription eng field = spec_extractText_failsafe eng field
   \<and> (list_all plain_text_nodes (children field) \<and> list_all (fits (walk_frames eng)) (children field)
        \<and> 0 < join_frames eng
      \<longrightarrow> extractDescription eng field = spec_extractText field)"
proof -
  have spec: "spec_extractText_failsafe eng f =
     (if f = JUndefined \<or> f = JNull \<or> f = JStr [] then no_description
      else case f of
        JStr s \<Rightarrow> (if trim s = [] then no_description else trim s)
      | _ \<Rightarrow>
        if \<not> list_all (fits (walk_frames eng)) (children f) then no_description
        else finish (join (number_text eng) (join_frames eng) (ascii '' '')
                       (concat (map spec_payloads (children f)))))" for f
    by (simp add: spec_extractText_failsafe_def finish_def flatten_def Let_def
          split: json.splits sum.splits)
  have code: "extractDescription eng field = spec_extractText_failsafe eng field"
  proof (cases field)
    case (JStr s)
    then show ?thesis by (simp add: extractDescription_def spec Let_def)
  next
    case (JBool b)
    then show ?thesis
      by (cases b) (simp_all add: extractDescription_def spec try_block_finish children_falsy finish_join_Nil)
  next
    case (JNum n)
    then show ?thesis
      by (cases "n = 0") (simp_all add: extractDescription_def spec try_block_finish children_falsy finish_join_Nil)
  qed (simp_all add: extractDescription_def spec try_block_finish)
  then show ?thesis
    by (simp add: failsafe_plain)
qed

theorem extractDescription_failsafe_witness:
  "list_all plain_text_nodes (children (with_content [with_content [text_node ''foo''], text_node ''bar'']))
   \<and> list_all (fits (walk_frames example_engine))
         (children (with_content [with_content [text_node ''foo''], text_node ''bar'']))
   \<and> 0 < join_frames example_engine
   \<and> extractDescription example_engine (with_content [with_content [text_node ''foo''], text_node ''bar''])
       = ascii ''foo bar''
   \<and> extractDescription example_engine (JStr (ascii ''  hello world  '')) = ascii ''hello world''
   \<and> extractDescription example_engine (with_content []) = ascii ''No description''
   \<and> extractDescription example_engine JUndefined = ascii ''No description''"
proof -
  have plain: "list_all plain_text_nodes
                 (children (with_content [with_content [text_node ''foo''], text_node ''bar'']))"
    by code_simp
  have room: "list_all (fits (walk_frames example_engine))
         (children (with_content [with_content [text_node ''foo''], text_node ''bar'']))"
    by code_simp
  have joins: "0 < join_frames example_engine"
    by (simp add: example_engine_def)
  have stated: "spec_extractText (with_content [with_content [text_node ''foo''], text_node ''bar''])
     = ascii ''foo bar''"
    by code_simp
  from extractDescription_failsafe [of example_engine
        "with_content [with_content [text_node ''foo''], text_node ''bar'']"] plain room joins
  have "extractDescription example_engine
          (with_content [with_content [text_node ''foo''], text_node ''bar''])
        = spec_extractText (with_content [with_content [text_node ''foo''], text_node ''bar''])"
    by blast
  with stated have p5: "extractDescription example_engine
              (with_content [with_content [text_node ''foo''], text_node ''bar'']) = ascii ''foo bar''"
    by simp
  have "spec_extractText_failsafe example_engine (JStr (ascii ''  hello world  '')) = ascii ''hello world''"
    and "spec_extractText_failsafe example_engine (with_content []) = ascii ''No description''"
    and "spec_extractText_failsafe example_engine JUndefined = ascii ''No description''"
    by code_simp+
  with p5 plain room joins show ?thesis
    by (simp add: extractDescription_failsafe)
qed

end
